theory Spec2Isabelle
  imports Complex_Main "HOL-Library.Word"
begin

unbundle bit_operations_syntax

section \<open>JavaScript values\<close>

text \<open>
  A JavaScript string is a sequence of UTF-16 code units; \<open>===\<close> on strings compares
  the two sequences element by element. String literals of the source are ASCII and are
  written through \<open>js\<close>.
\<close>

type_synonym code_unit = "16 word"
type_synonym jsstring = "code_unit list"

definition js :: "string \<Rightarrow> jsstring" where
  "js s = map of_char s"

text \<open>
  A JavaScript \<open>number\<close> is an IEEE 754 binary64 value: \<open>NaN\<close>, one of the two infinities, or
  a finite value, which is kept as the rational number it denotes. \<open>Fin 0\<close> stands for
  both zeros and behaves as \<open>+0\<close>: in \<open>haversineDistance\<close> the sign of a zero never reaches
  a result (a square is \<open>+0\<close>, the sum of \<open>+0\<close> and a zero is \<open>+0\<close>, the roots are taken of such
  sums, and the divisors are the literals 180 and 2).
\<close>

datatype number = NaN | NegInf | Fin rat | PosInf

subsection \<open>Rounding to binary64\<close>

text \<open>
  An arithmetic operation on finite values gives the exact result rounded to the nearest
  binary64 value, ties to even; a result of magnitude \<open>2 ^ 1024\<close> or more after rounding is an
  infinity. Below \<open>2 ^ - 1022\<close> the values are spaced \<open>2 ^ - 1074\<close> apart.
\<close>

definition pow_int :: "rat \<Rightarrow> int \<Rightarrow> rat" where
  "pow_int b k = (if 0 \<le> k then b ^ nat k else 1 / b ^ nat (- k))"

function ilog :: "nat \<Rightarrow> nat \<Rightarrow> nat" where
  "ilog b n = (if b \<le> 1 \<or> n < b then 0 else Suc (ilog b (n div b)))"
  by pat_completeness auto
termination
  by (relation "measure snd") auto

text \<open>The integer \<open>g\<close> with \<open>b ^ g \<le> x < b ^ (g + 1)\<close>, for a positive \<open>x\<close>.\<close>

definition floor_log :: "nat \<Rightarrow> rat \<Rightarrow> int" where
  "floor_log b x =
     (let (p, q) = quotient_of x;
          g = int (ilog b (nat p)) - int (ilog b (nat q))
      in if pow_int (of_nat b) g \<le> x then g else g - 1)"

definition round_half_even :: "'a::floor_ceiling \<Rightarrow> int" where
  "round_half_even q =
     (let f = \<lfloor>q\<rfloor>; r = q - of_int f
      in if r < 1 / 2 then f else if 1 / 2 < r then f + 1 else if even f then f else f + 1)"

text \<open>The binary64 value nearest to a positive rational; \<open>None\<close> when it overflows.\<close>

definition to_double :: "rat \<Rightarrow> rat option" where
  "to_double x =
     (let quantum = pow_int 2 (max (floor_log 2 x) (- 1022) - 52);
          d = of_int (round_half_even (x / quantum)) * quantum
      in if 2 ^ 1024 \<le> d then None else Some d)"

fun num_neg :: "number \<Rightarrow> number" where
  "num_neg NaN = NaN"
| "num_neg NegInf = PosInf"
| "num_neg PosInf = NegInf"
| "num_neg (Fin x) = Fin (- x)"

text \<open>
  The Number value of a rational: of the exact result of an operation, and of a decimal
  literal of the source.
\<close>

definition round64 :: "rat \<Rightarrow> number" where
  "round64 x =
     (if x = 0 then Fin 0
      else if 0 < x then (case to_double x of None \<Rightarrow> PosInf | Some d \<Rightarrow> Fin d)
      else (case to_double (- x) of None \<Rightarrow> NegInf | Some d \<Rightarrow> Fin (- d)))"

subsection \<open>The arithmetic operators\<close>

fun num_add :: "number \<Rightarrow> number \<Rightarrow> number" where
  "num_add NaN y = NaN"
| "num_add x NaN = NaN"
| "num_add (Fin x) (Fin y) = round64 (x + y)"
| "num_add (Fin x) y = y"
| "num_add x (Fin y) = x"
| "num_add PosInf PosInf = PosInf"
| "num_add NegInf NegInf = NegInf"
| "num_add PosInf NegInf = NaN"
| "num_add NegInf PosInf = NaN"

definition num_sub :: "number \<Rightarrow> number \<Rightarrow> number" where
  "num_sub x y = num_add x (num_neg y)"

definition signed_inf :: "bool \<Rightarrow> number" where
  "signed_inf positive = (if positive then PosInf else NegInf)"

fun num_mul :: "number \<Rightarrow> number \<Rightarrow> number" where
  "num_mul NaN y = NaN"
| "num_mul x NaN = NaN"
| "num_mul (Fin x) (Fin y) = round64 (x * y)"
| "num_mul (Fin x) PosInf = (if x = 0 then NaN else signed_inf (0 < x))"
| "num_mul (Fin x) NegInf = (if x = 0 then NaN else signed_inf (x < 0))"
| "num_mul PosInf (Fin y) = (if y = 0 then NaN else signed_inf (0 < y))"
| "num_mul NegInf (Fin y) = (if y = 0 then NaN else signed_inf (y < 0))"
| "num_mul PosInf PosInf = PosInf"
| "num_mul NegInf NegInf = PosInf"
| "num_mul PosInf NegInf = NegInf"
| "num_mul NegInf PosInf = NegInf"

fun num_div :: "number \<Rightarrow> number \<Rightarrow> number" where
  "num_div NaN y = NaN"
| "num_div x NaN = NaN"
| "num_div (Fin x) (Fin y) =
     (if y = 0 then (if x = 0 then NaN else signed_inf (0 < x)) else round64 (x / y))"
| "num_div (Fin x) y = Fin 0"
| "num_div PosInf (Fin y) = signed_inf (0 \<le> y)"
| "num_div NegInf (Fin y) = signed_inf (y < 0)"
| "num_div x y = NaN"

text \<open>\<open>Math.PI\<close> is the binary64 value nearest to \<open>\<pi>\<close>, 3.141592653589793.\<close>

definition Math_PI :: number where
  "Math_PI = Fin (884279719003555 / 281474976710656)"

subsection \<open>The functions of \<open>Math\<close> and the operator \<open>**\<close>\<close>

text \<open>
  The language standard fixes the results of \<open>Math.sin\<close>, \<open>Math.cos\<close>, \<open>Math.sqrt\<close>,
  \<open>Math.atan2\<close> and \<open>**\<close> on special arguments only (\<open>NaN\<close>, the infinities, the zeros, and
  the arguments with a zero result); every other result is an approximation that the
  engine chooses. Those results are a parameter of the embedding, a record \<open>M\<close> of
  functions on the arguments that the standard leaves open, and the cases that the
  standard fixes are written out. A statement about every \<open>M\<close> holds for the library of
  every engine.
\<close>

record libm =
  sin_approx :: "rat \<Rightarrow> rat"
  cos_approx :: "rat \<Rightarrow> rat"
  sqrt_approx :: "rat \<Rightarrow> rat"
  atan2_approx :: "number \<Rightarrow> number \<Rightarrow> rat"
  square_approx :: "rat \<Rightarrow> number"

text \<open>\<open>x ** 2\<close>\<close>

fun num_sq :: "libm \<Rightarrow> number \<Rightarrow> number" where
  "num_sq M NaN = NaN"
| "num_sq M (Fin x) = (if x = 0 then Fin 0 else square_approx M x)"
| "num_sq M x = PosInf"

fun Math_sin :: "libm \<Rightarrow> number \<Rightarrow> number" where
  "Math_sin M (Fin x) = (if x = 0 then Fin 0 else Fin (sin_approx M x))"
| "Math_sin M x = NaN"

fun Math_cos :: "libm \<Rightarrow> number \<Rightarrow> number" where
  "Math_cos M (Fin x) = (if x = 0 then Fin 1 else Fin (cos_approx M x))"
| "Math_cos M x = NaN"

fun Math_sqrt :: "libm \<Rightarrow> number \<Rightarrow> number" where
  "Math_sqrt M (Fin x) = (if x < 0 then NaN else if x = 0 then Fin 0 else Fin (sqrt_approx M x))"
| "Math_sqrt M PosInf = PosInf"
| "Math_sqrt M x = NaN"

text \<open>
  \<open>Math.atan2(y, x)\<close> is \<open>+0\<close> when \<open>y\<close> is \<open>+0\<close> and \<open>x\<close> is \<open>+0\<close> or positive, and when \<open>y\<close> is
  finite and \<open>x\<close> is \<open>+\<infinity>\<close>; its other results are approximations of angles.
\<close>

fun Math_atan2 :: "libm \<Rightarrow> number \<Rightarrow> number \<Rightarrow> number" where
  "Math_atan2 M NaN x = NaN"
| "Math_atan2 M y NaN = NaN"
| "Math_atan2 M (Fin y) (Fin x) =
     (if y = 0 \<and> 0 \<le> x then Fin 0 else Fin (atan2_approx M (Fin y) (Fin x)))"
| "Math_atan2 M (Fin y) PosInf = Fin 0"
| "Math_atan2 M y x = Fin (atan2_approx M y x)"

text \<open>The relational operators \<open><\<close> and \<open><=\<close>: every comparison with \<open>NaN\<close> is false.\<close>

fun num_lt :: "number \<Rightarrow> number \<Rightarrow> bool" where
  "num_lt NaN y = False"
| "num_lt x NaN = False"
| "num_lt (Fin x) (Fin y) = (x < y)"
| "num_lt x NegInf = False"
| "num_lt PosInf y = False"
| "num_lt NegInf y = True"
| "num_lt x PosInf = True"

fun num_le :: "number \<Rightarrow> number \<Rightarrow> bool" where
  "num_le NaN y = False"
| "num_le x NaN = False"
| "num_le (Fin x) (Fin y) = (x \<le> y)"
| "num_le NegInf y = True"
| "num_le x PosInf = True"
| "num_le x y = False"

text \<open>The strict equality \<open>===\<close> on numbers: \<open>NaN\<close> is equal to nothing, itself included.\<close>

fun num_eq :: "number \<Rightarrow> number \<Rightarrow> bool" where
  "num_eq NaN y = False"
| "num_eq x NaN = False"
| "num_eq x y = (x = y)"

section \<open>The edge directory (src/data/edges.ts)\<close>

record EdgeLocation =
  code :: jsstring
  city :: jsstring
  country :: jsstring
  lat :: number
  lng :: number

text \<open>A decimal literal denotes the binary64 value nearest to it.\<close>

definition EDGE_LOCATIONS :: "EdgeLocation list" where
  "EDGE_LOCATIONS = [
    \<lparr>code = js ''SJC'', city = js ''San Jose'', country = js ''US'', lat = round64 37.36, lng = round64 (-121.93)\<rparr>,
    \<lparr>code = js ''LAX'', city = js ''Los Angeles'', country = js ''US'', lat = round64 33.94, lng = round64 (-118.41)\<rparr>,
    \<lparr>code = js ''SEA'', city = js ''Seattle'', country = js ''US'', lat = round64 47.45, lng = round64 (-122.31)\<rparr>,
    \<lparr>code = js ''ORD'', city = js ''Chicago'', country = js ''US'', lat = round64 41.97, lng = round64 (-87.91)\<rparr>,
    \<lparr>code = js ''IAD'', city = js ''Washington DC'', country = js ''US'', lat = round64 38.95, lng = round64 (-77.46)\<rparr>,
    \<lparr>code = js ''EWR'', city = js ''Newark'', country = js ''US'', lat = round64 40.69, lng = round64 (-74.17)\<rparr>,
    \<lparr>code = js ''MIA'', city = js ''Miami'', country = js ''US'', lat = round64 25.80, lng = round64 (-80.29)\<rparr>,
    \<lparr>code = js ''DFW'', city = js ''Dallas'', country = js ''US'', lat = round64 32.90, lng = round64 (-97.04)\<rparr>,
    \<lparr>code = js ''ATL'', city = js ''Atlanta'', country = js ''US'', lat = round64 33.64, lng = round64 (-84.43)\<rparr>,
    \<lparr>code = js ''DEN'', city = js ''Denver'', country = js ''US'', lat = round64 39.86, lng = round64 (-104.67)\<rparr>,
    \<lparr>code = js ''PHX'', city = js ''Phoenix'', country = js ''US'', lat = round64 33.43, lng = round64 (-112.01)\<rparr>,
    \<lparr>code = js ''YYZ'', city = js ''Toronto'', country = js ''CA'', lat = round64 43.68, lng = round64 (-79.63)\<rparr>,
    \<lparr>code = js ''YVR'', city = js ''Vancouver'', country = js ''CA'', lat = round64 49.19, lng = round64 (-123.18)\<rparr>,
    \<lparr>code = js ''MEX'', city = js ''Mexico City'', country = js ''MX'', lat = round64 19.44, lng = round64 (-99.07)\<rparr>,
    \<lparr>code = js ''LHR'', city = js ''London'', country = js ''GB'', lat = round64 51.47, lng = round64 (-0.45)\<rparr>,
    \<lparr>code = js ''AMS'', city = js ''Amsterdam'', country = js ''NL'', lat = round64 52.31, lng = round64 4.77\<rparr>,
    \<lparr>code = js ''FRA'', city = js ''Frankfurt'', country = js ''DE'', lat = round64 50.04, lng = round64 8.56\<rparr>,
    \<lparr>code = js ''CDG'', city = js ''Paris'', country = js ''FR'', lat = round64 49.01, lng = round64 2.55\<rparr>,
    \<lparr>code = js ''MAD'', city = js ''Madrid'', country = js ''ES'', lat = round64 40.47, lng = round64 (-3.56)\<rparr>,
    \<lparr>code = js ''MXP'', city = js ''Milan'', country = js ''IT'', lat = round64 45.63, lng = round64 8.72\<rparr>,
    \<lparr>code = js ''ZRH'', city = js ''Zurich'', country = js ''CH'', lat = round64 47.46, lng = round64 8.56\<rparr>,
    \<lparr>code = js ''VIE'', city = js ''Vienna'', country = js ''AT'', lat = round64 48.11, lng = round64 16.57\<rparr>,
    \<lparr>code = js ''WAW'', city = js ''Warsaw'', country = js ''PL'', lat = round64 52.17, lng = round64 20.97\<rparr>,
    \<lparr>code = js ''ARN'', city = js ''Stockholm'', country = js ''SE'', lat = round64 59.65, lng = round64 17.95\<rparr>,
    \<lparr>code = js ''HEL'', city = js ''Helsinki'', country = js ''FI'', lat = round64 60.32, lng = round64 24.96\<rparr>,
    \<lparr>code = js ''DUB'', city = js ''Dublin'', country = js ''IE'', lat = round64 53.43, lng = round64 (-6.25)\<rparr>,
    \<lparr>code = js ''NRT'', city = js ''Tokyo'', country = js ''JP'', lat = round64 35.77, lng = round64 140.39\<rparr>,
    \<lparr>code = js ''HND'', city = js ''Tokyo Haneda'', country = js ''JP'', lat = round64 35.55, lng = round64 139.78\<rparr>,
    \<lparr>code = js ''SIN'', city = js ''Singapore'', country = js ''SG'', lat = round64 1.36, lng = round64 103.99\<rparr>,
    \<lparr>code = js ''HKG'', city = js ''Hong Kong'', country = js ''HK'', lat = round64 22.31, lng = round64 113.92\<rparr>,
    \<lparr>code = js ''ICN'', city = js ''Seoul'', country = js ''KR'', lat = round64 37.46, lng = round64 126.44\<rparr>,
    \<lparr>code = js ''SYD'', city = js ''Sydney'', country = js ''AU'', lat = round64 (-33.94), lng = round64 151.18\<rparr>,
    \<lparr>code = js ''MEL'', city = js ''Melbourne'', country = js ''AU'', lat = round64 (-37.67), lng = round64 144.84\<rparr>,
    \<lparr>code = js ''BOM'', city = js ''Mumbai'', country = js ''IN'', lat = round64 19.09, lng = round64 72.87\<rparr>,
    \<lparr>code = js ''DEL'', city = js ''New Delhi'', country = js ''IN'', lat = round64 28.56, lng = round64 77.10\<rparr>,
    \<lparr>code = js ''BKK'', city = js ''Bangkok'', country = js ''TH'', lat = round64 13.69, lng = round64 100.75\<rparr>,
    \<lparr>code = js ''KUL'', city = js ''Kuala Lumpur'', country = js ''MY'', lat = round64 2.75, lng = round64 101.71\<rparr>,
    \<lparr>code = js ''CGK'', city = js ''Jakarta'', country = js ''ID'', lat = round64 (-6.13), lng = round64 106.66\<rparr>,
    \<lparr>code = js ''MNL'', city = js ''Manila'', country = js ''PH'', lat = round64 14.51, lng = round64 121.02\<rparr>,
    \<lparr>code = js ''TPE'', city = js ''Taipei'', country = js ''TW'', lat = round64 25.08, lng = round64 121.23\<rparr>,
    \<lparr>code = js ''GRU'', city = js ''Sao Paulo'', country = js ''BR'', lat = round64 (-23.44), lng = round64 (-46.47)\<rparr>,
    \<lparr>code = js ''GIG'', city = js ''Rio de Janeiro'', country = js ''BR'', lat = round64 (-22.81), lng = round64 (-43.25)\<rparr>,
    \<lparr>code = js ''EZE'', city = js ''Buenos Aires'', country = js ''AR'', lat = round64 (-34.82), lng = round64 (-58.54)\<rparr>,
    \<lparr>code = js ''SCL'', city = js ''Santiago'', country = js ''CL'', lat = round64 (-33.39), lng = round64 (-70.79)\<rparr>,
    \<lparr>code = js ''BOG'', city = js ''Bogota'', country = js ''CO'', lat = round64 4.70, lng = round64 (-74.15)\<rparr>,
    \<lparr>code = js ''LIM'', city = js ''Lima'', country = js ''PE'', lat = round64 (-12.02), lng = round64 (-77.11)\<rparr>,
    \<lparr>code = js ''JNB'', city = js ''Johannesburg'', country = js ''ZA'', lat = round64 (-26.14), lng = round64 28.24\<rparr>,
    \<lparr>code = js ''CPT'', city = js ''Cape Town'', country = js ''ZA'', lat = round64 (-33.97), lng = round64 18.60\<rparr>,
    \<lparr>code = js ''DXB'', city = js ''Dubai'', country = js ''AE'', lat = round64 25.25, lng = round64 55.36\<rparr>,
    \<lparr>code = js ''TLV'', city = js ''Tel Aviv'', country = js ''IL'', lat = round64 32.01, lng = round64 34.89\<rparr>,
    \<lparr>code = js ''CAI'', city = js ''Cairo'', country = js ''EG'', lat = round64 30.11, lng = round64 31.40\<rparr>,
    \<lparr>code = js ''NBO'', city = js ''Nairobi'', country = js ''KE'', lat = round64 (-1.32), lng = round64 36.93\<rparr>,
    \<lparr>code = js ''LOS'', city = js ''Lagos'', country = js ''NG'', lat = round64 6.58, lng = round64 3.32\<rparr>
  ]"

definition toRad :: "number \<Rightarrow> number" where
  "toRad deg = num_div (num_mul deg Math_PI) (Fin 180)"

definition haversineDistance :: "libm \<Rightarrow> number \<Rightarrow> number \<Rightarrow> number \<Rightarrow> number \<Rightarrow> number" where
  "haversineDistance M lat1 lng1 lat2 lng2 =
     (let R = Fin 6371;
          dLat = toRad (num_sub lat2 lat1);
          dLng = toRad (num_sub lng2 lng1);
          a = num_add (num_sq M (Math_sin M (num_div dLat (Fin 2))))
                (num_mul (num_mul (Math_cos M (toRad lat1)) (Math_cos M (toRad lat2)))
                   (num_sq M (Math_sin M (num_div dLng (Fin 2)))))
      in num_mul (num_mul R (Fin 2)) (Math_atan2 M (Math_sqrt M a) (Math_sqrt M (num_sub (Fin 1) a))))"

text \<open>
  The \<open>for ... of\<close> loop of \<open>findNearestEdge\<close>, with its two variables \<open>nearest\<close> and
  \<open>minDist\<close> as the loop state. \<open>EDGE_LOCATIONS[0]\<close> is \<open>undefined\<close> on an empty array,
  which is \<open>None\<close> here.
\<close>

fun nearest_loop ::
  "libm \<Rightarrow> number \<Rightarrow> number \<Rightarrow> EdgeLocation list \<Rightarrow> EdgeLocation option \<times> number \<Rightarrow>
     EdgeLocation option"
where
  "nearest_loop M qlat qlng [] (nearest, minDist) = nearest"
| "nearest_loop M qlat qlng (edge # rest) (nearest, minDist) =
     (let dist = haversineDistance M qlat qlng (lat edge) (lng edge)
      in if num_lt dist minDist
         then nearest_loop M qlat qlng rest (Some edge, dist)
         else nearest_loop M qlat qlng rest (nearest, minDist))"

definition element0 :: "'a list \<Rightarrow> 'a option" where
  "element0 xs = (case xs of [] \<Rightarrow> None | x # _ \<Rightarrow> Some x)"

definition findNearestEdge :: "libm \<Rightarrow> number \<Rightarrow> number \<Rightarrow> EdgeLocation option" where
  "findNearestEdge M qlat qlng =
     nearest_loop M qlat qlng EDGE_LOCATIONS (element0 EDGE_LOCATIONS, PosInf)"

definition getEdgeByCode :: "jsstring \<Rightarrow> EdgeLocation option" where
  "getEdgeByCode c = find (\<lambda>e. code e = c) EDGE_LOCATIONS"

text \<open>The distance that the loop computes for an entry.\<close>

definition distance_to :: "libm \<Rightarrow> number \<Rightarrow> number \<Rightarrow> EdgeLocation \<Rightarrow> number" where
  "distance_to M qlat qlng e = haversineDistance M qlat qlng (lat e) (lng e)"

subsection \<open>Libraries\<close>

text \<open>
  What the symmetry of the distance asks of the library: the sine is odd and the square
  is even, exactly; a cosine lies between -1 and 1; the square root of a positive number
  is not negative.
\<close>

definition sound_libm :: "libm \<Rightarrow> bool" where
  "sound_libm M \<longleftrightarrow>
     (\<forall>x. sin_approx M (- x) = - sin_approx M x) \<and>
     (\<forall>x. square_approx M (- x) = square_approx M x) \<and>
     (\<forall>x. \<bar>cos_approx M x\<bar> \<le> 1) \<and>
     (\<forall>x. 0 < x \<longrightarrow> 0 \<le> sqrt_approx M x)"

text \<open>
  One library, for the statements at concrete arguments: every result is the binary64
  value nearest to the real result, ties to even. \<open>atan2_value\<close> is the angle that
  \<open>Math.atan2\<close> approximates.
\<close>

definition nearest_double :: "real \<Rightarrow> rat" where
  "nearest_double x =
     (if x = 0 then 0
      else let quantum = pow_int 2 (max \<lfloor>log 2 \<bar>x\<bar>\<rfloor> (- 1022) - 52);
               n = round_half_even (\<bar>x\<bar> / of_rat quantum)
           in if 0 < x then of_int n * quantum else - (of_int n * quantum))"

definition atan2_real :: "real \<Rightarrow> real \<Rightarrow> real" where
  "atan2_real y x =
     (if 0 < x then arctan (y / x)
      else if x < 0 then (if 0 \<le> y then arctan (y / x) + pi else arctan (y / x) - pi)
      else if 0 < y then pi / 2
      else if y < 0 then - (pi / 2)
      else 0)"

fun atan2_value :: "number \<Rightarrow> number \<Rightarrow> real" where
  "atan2_value (Fin y) (Fin x) = atan2_real (of_rat y) (of_rat x)"
| "atan2_value (Fin y) PosInf = 0"
| "atan2_value (Fin y) NegInf = (if 0 \<le> y then pi else - pi)"
| "atan2_value PosInf (Fin x) = pi / 2"
| "atan2_value NegInf (Fin x) = - (pi / 2)"
| "atan2_value PosInf PosInf = pi / 4"
| "atan2_value PosInf NegInf = 3 * pi / 4"
| "atan2_value NegInf PosInf = - (pi / 4)"
| "atan2_value NegInf NegInf = - (3 * pi / 4)"
| "atan2_value y x = 0"

definition rounded_libm :: libm where
  "rounded_libm =
     \<lparr>sin_approx = (\<lambda>x. nearest_double (sin (of_rat x))),
      cos_approx = (\<lambda>x. nearest_double (cos (of_rat x))),
      sqrt_approx = (\<lambda>x. nearest_double (sqrt (of_rat x))),
      atan2_approx = (\<lambda>y x. nearest_double (atan2_value y x)),
      square_approx = (\<lambda>x. round64 (x * x))\<rparr>"

section \<open>The streamed chat reply (client/src/App.tsx)\<close>

subsection \<open>\<open>TextDecoder\<close>: streaming UTF-8 decoding\<close>

text \<open>
  \<open>new TextDecoder()\<close> decodes UTF-8, replaces malformed input by U+FFFD and strips a
  leading byte order mark. Called with \<open>{stream: true}\<close> it keeps the bytes of an
  unfinished sequence in its state. The state and the handler are those of the
  Encoding Standard's UTF-8 decoder.
\<close>

type_synonym byte = "8 word"

definition bytes :: "string \<Rightarrow> byte list" where
  "bytes s = map of_char s"

record utf8_decoder =
  code_point :: nat
  bytes_seen :: nat
  bytes_needed :: nat
  lower_boundary :: byte
  upper_boundary :: byte

definition utf8_initial :: utf8_decoder where
  "utf8_initial = \<lparr>code_point = 0, bytes_seen = 0, bytes_needed = 0,
                    lower_boundary = 0x80, upper_boundary = 0xBF\<rparr>"

text \<open>The handler when no sequence is open (bytes needed is 0).\<close>

definition utf8_lead :: "utf8_decoder \<Rightarrow> byte \<Rightarrow> utf8_decoder \<times> nat list" where
  "utf8_lead d b =
     (if b \<le> 0x7F then (d, [unat b])
      else if 0xC2 \<le> b \<and> b \<le> 0xDF then
        (d\<lparr>bytes_needed := 1, code_point := unat (b AND 0x1F)\<rparr>, [])
      else if 0xE0 \<le> b \<and> b \<le> 0xEF then
        (d\<lparr>lower_boundary := (if b = 0xE0 then 0xA0 else lower_boundary d),
           upper_boundary := (if b = 0xED then 0x9F else upper_boundary d),
           bytes_needed := 2, code_point := unat (b AND 0xF)\<rparr>, [])
      else if 0xF0 \<le> b \<and> b \<le> 0xF4 then
        (d\<lparr>lower_boundary := (if b = 0xF0 then 0x90 else lower_boundary d),
           upper_boundary := (if b = 0xF4 then 0x8F else upper_boundary d),
           bytes_needed := 3, code_point := unat (b AND 0x7)\<rparr>, [])
      else (d, [0xFFFD]))"

text \<open>
  The handler for one byte. A byte outside the expected range ends the open sequence
  with U+FFFD and is read again as the start of a new one.
\<close>

definition utf8_handler :: "utf8_decoder \<Rightarrow> byte \<Rightarrow> utf8_decoder \<times> nat list" where
  "utf8_handler d b =
     (if bytes_needed d = 0 then utf8_lead d b
      else if \<not> (lower_boundary d \<le> b \<and> b \<le> upper_boundary d) then
        (let (d', out) = utf8_lead utf8_initial b in (d', 0xFFFD # out))
      else
        (let d1 = d\<lparr>lower_boundary := 0x80, upper_boundary := 0xBF,
                     code_point := push_bit 6 (code_point d) OR unat (b AND 0x3F),
                     bytes_seen := bytes_seen d + 1\<rparr>
         in if bytes_seen d1 \<noteq> bytes_needed d1 then (d1, [])
            else (d1\<lparr>code_point := 0, bytes_needed := 0, bytes_seen := 0\<rparr>, [code_point d1])))"

fun utf8_run :: "utf8_decoder \<Rightarrow> byte list \<Rightarrow> utf8_decoder \<times> nat list" where
  "utf8_run d [] = (d, [])"
| "utf8_run d (b # bs) =
     (let (d1, out1) = utf8_handler d b;
          (d2, out2) = utf8_run d1 bs
      in (d2, out1 @ out2))"

text \<open>Serialization of the decoded scalar values: the first one is dropped when it is U+FEFF.\<close>

fun serialize :: "bool \<Rightarrow> nat list \<Rightarrow> bool \<times> nat list" where
  "serialize seen [] = (seen, [])"
| "serialize seen (c # cs) = (True, if \<not> seen \<and> c = 0xFEFF then cs else c # cs)"

definition utf16 :: "nat \<Rightarrow> jsstring" where
  "utf16 cp =
     (if cp < 0x10000 then [of_nat cp]
      else [of_nat (0xD800 + (cp - 0x10000) div 0x400), of_nat (0xDC00 + (cp - 0x10000) mod 0x400)])"

record TextDecoder =
  utf8 :: utf8_decoder
  BOM_seen :: bool

definition new_TextDecoder :: TextDecoder where
  "new_TextDecoder = \<lparr>utf8 = utf8_initial, BOM_seen = False\<rparr>"

text \<open>\<open>decoder.decode(value, { stream: true })\<close>\<close>

definition decode_stream :: "TextDecoder \<Rightarrow> byte list \<Rightarrow> TextDecoder \<times> jsstring" where
  "decode_stream td value =
     (let (u, scalars) = utf8_run (utf8 td) value;
          (seen, out) = serialize (BOM_seen td) scalars
      in (\<lparr>utf8 = u, BOM_seen = seen\<rparr>, concat (map utf16 out)))"

subsection \<open>String methods\<close>

text \<open>\<open>s.split("\n")\<close>: never empty; its last element is the text after the last newline.\<close>

fun split_lines :: "jsstring \<Rightarrow> jsstring list" where
  "split_lines [] = [[]]"
| "split_lines (c # cs) =
     (if c = 0x0A then [] # split_lines cs
      else (case split_lines cs of [] \<Rightarrow> [[c]] | l # ls \<Rightarrow> (c # l) # ls))"

text \<open>\<open>lines.pop()\<close>: the removed last element (\<open>undefined\<close> on an empty array) and the rest.\<close>

definition array_pop :: "'a list \<Rightarrow> 'a option \<times> 'a list" where
  "array_pop xs = (if xs = [] then (None, []) else (Some (last xs), butlast xs))"

text \<open>\<open>x || ""\<close> for a string or \<open>undefined\<close>: the empty string is falsy.\<close>

definition or_empty :: "jsstring option \<Rightarrow> jsstring" where
  "or_empty x = (case x of None \<Rightarrow> [] | Some s \<Rightarrow> if s = [] then [] else s)"

text \<open>\<open>trim()\<close> removes white space and line terminators at both ends.\<close>

definition is_trim_space :: "code_unit \<Rightarrow> bool" where
  "is_trim_space c \<longleftrightarrow>
     c = 0x09 \<or> c = 0x0A \<or> c = 0x0B \<or> c = 0x0C \<or> c = 0x0D \<or> c = 0x20 \<or> c = 0xA0 \<or>
     c = 0x1680 \<or> (0x2000 \<le> c \<and> c \<le> 0x200A) \<or> c = 0x2028 \<or> c = 0x2029 \<or>
     c = 0x202F \<or> c = 0x205F \<or> c = 0x3000 \<or> c = 0xFEFF"

definition trim :: "jsstring \<Rightarrow> jsstring" where
  "trim s = rev (dropWhile is_trim_space (rev (dropWhile is_trim_space s)))"

definition startsWith :: "jsstring \<Rightarrow> jsstring \<Rightarrow> bool" where
  "startsWith s p \<longleftrightarrow> take (length p) s = p"

subsection \<open>\<open>JSON.parse\<close>\<close>

text \<open>
  A number keeps the mathematical value of its literal, \<open>m * 10 ^ e\<close>, as the pair
  \<open>(m, e)\<close>. The members of an object are kept in the order of the text.
\<close>

datatype json =
    JNull
  | JBool bool
  | JNumber int int
  | JString jsstring
  | JArray "json list"
  | JObject "(jsstring \<times> json) list"

datatype token =
    TLBrace | TRBrace | TLBracket | TRBracket | TColon | TComma
  | TTrue | TFalse | TNull
  | TString jsstring
  | TNumber int int

definition is_json_space :: "code_unit \<Rightarrow> bool" where
  "is_json_space c \<longleftrightarrow> c = 0x09 \<or> c = 0x0A \<or> c = 0x0D \<or> c = 0x20"

definition is_digit :: "code_unit \<Rightarrow> bool" where
  "is_digit c \<longleftrightarrow> 0x30 \<le> c \<and> c \<le> 0x39"

definition digits_value :: "jsstring \<Rightarrow> nat" where
  "digits_value ds = foldl (\<lambda>n c. 10 * n + (unat c - 48)) 0 ds"

definition hex_value :: "code_unit \<Rightarrow> nat option" where
  "hex_value c =
     (if 0x30 \<le> c \<and> c \<le> 0x39 then Some (unat c - 48)
      else if 0x41 \<le> c \<and> c \<le> 0x46 then Some (unat c - 55)
      else if 0x61 \<le> c \<and> c \<le> 0x66 then Some (unat c - 87)
      else None)"

definition hex4 :: "code_unit \<Rightarrow> code_unit \<Rightarrow> code_unit \<Rightarrow> code_unit \<Rightarrow> code_unit option" where
  "hex4 a b c d =
     (case (hex_value a, hex_value b, hex_value c, hex_value d) of
        (Some h1, Some h2, Some h3, Some h4) \<Rightarrow> Some (of_nat (((h1 * 16 + h2) * 16 + h3) * 16 + h4))
      | _ \<Rightarrow> None)"

definition escape_char :: "code_unit \<Rightarrow> code_unit option" where
  "escape_char c =
     (if c = 0x22 then Some 0x22
      else if c = 0x5C then Some 0x5C
      else if c = 0x2F then Some 0x2F
      else if c = 0x62 then Some 0x08
      else if c = 0x66 then Some 0x0C
      else if c = 0x6E then Some 0x0A
      else if c = 0x72 then Some 0x0D
      else if c = 0x74 then Some 0x09
      else None)"

text \<open>An escape sequence, after its backslash: the code unit it denotes and the rest.\<close>

definition unescape :: "jsstring \<Rightarrow> (code_unit \<times> jsstring) option" where
  "unescape s =
     (case s of
        [] \<Rightarrow> None
      | e # cs1 \<Rightarrow>
          if e = 0x75 then
            (case cs1 of
               h1 # h2 # h3 # h4 # cs2 \<Rightarrow> map_option (\<lambda>u. (u, cs2)) (hex4 h1 h2 h3 h4)
             | _ \<Rightarrow> None)
          else map_option (\<lambda>u. (u, cs1)) (escape_char e))"

lemma unescape_shorter: "unescape s = Some (u, r) \<Longrightarrow> length r < length s"
  by (auto simp: unescape_def split: list.splits if_splits)

text \<open>The characters of a string after its opening quote, up to the closing quote.\<close>

function lex_string :: "jsstring \<Rightarrow> jsstring \<Rightarrow> (jsstring \<times> jsstring) option" where
  "lex_string acc [] = None"
| "lex_string acc (c # cs) =
     (if c = 0x22 then Some (rev acc, cs)
      else if c = 0x5C then
        (case unescape cs of
           None \<Rightarrow> None
         | Some (u, cs1) \<Rightarrow> lex_string (u # acc) cs1)
      else if c < 0x20 then None
      else lex_string (c # acc) cs)"
  by pat_completeness auto
termination
  by (relation "measure (\<lambda>(acc, cs). length cs)") (auto dest: unescape_shorter)

text \<open>
  A number: an optional minus sign, an integer part without a superfluous leading zero,
  an optional fraction and an optional exponent.
\<close>

definition lex_number :: "jsstring \<Rightarrow> ((int \<times> int) \<times> jsstring) option" where
  "lex_number s =
     (let negative = (s \<noteq> [] \<and> hd s = 0x2D);
          s1 = (if negative then tl s else s);
          ip = (if s1 \<noteq> [] \<and> hd s1 = 0x30 then [0x30] else takeWhile is_digit s1);
          s2 = drop (length ip) s1;
          has_frac = (s2 \<noteq> [] \<and> hd s2 = 0x2E);
          fd = (if has_frac then takeWhile is_digit (tl s2) else []);
          s3 = (if has_frac then drop (length fd) (tl s2) else s2);
          has_exp = (s3 \<noteq> [] \<and> (hd s3 = 0x65 \<or> hd s3 = 0x45));
          s4 = (if has_exp then tl s3 else s3);
          exp_negative = (has_exp \<and> s4 \<noteq> [] \<and> hd s4 = 0x2D);
          s5 = (if has_exp \<and> s4 \<noteq> [] \<and> (hd s4 = 0x2D \<or> hd s4 = 0x2B) then tl s4 else s4);
          ed = (if has_exp then takeWhile is_digit s5 else []);
          s6 = drop (length ed) s5;
          m = int (digits_value (ip @ fd));
          ex = int (digits_value ed)
      in if ip = [] \<or> (has_frac \<and> fd = []) \<or> (has_exp \<and> ed = []) then None
         else Some ((if negative then - m else m,
                     (if exp_negative then - ex else ex) - int (length fd)), s6))"


lemma lex_string_shorter: "lex_string acc cs = Some (s, rest) \<Longrightarrow> length rest < length cs"
proof (induction acc cs rule: lex_string.induct)
  case (1 acc)
  then show ?case by simp
next
  case (2 acc c cs)
  show ?case
  proof (cases "c = 0x22")
    case True
    with "2.prems" show ?thesis by simp
  next
    case quote: False
    show ?thesis
    proof (cases "c = 0x5C")
      case True
      with quote "2.prems" obtain u cs1 where u: "unescape cs = Some (u, cs1)"
          "lex_string (u # acc) cs1 = Some (s, rest)"
        by (auto split: option.splits)
      from "2.IH"(1)[OF quote True u(1) refl u(2)] unescape_shorter[OF u(1)]
      show ?thesis by simp
    next
      case False
      with quote "2.prems" have c: "\<not> c < 0x20" "lex_string (c # acc) cs = Some (s, rest)"
        by (auto split: if_splits)
      from "2.IH"(2)[OF quote False c] show ?thesis by simp
    qed
  qed
qed

lemma lex_number_shorter:
  assumes "lex_number (c # cs) = Some (n, rest)"
  shows "length rest \<le> length cs"
proof -
  define s where "s = c # cs"
  define negative where "negative = (s \<noteq> [] \<and> hd s = 0x2D)"
  define s1 where "s1 = (if negative then tl s else s)"
  define ip where "ip = (if s1 \<noteq> [] \<and> hd s1 = 0x30 then [0x30] else takeWhile is_digit s1)"
  define s2 where "s2 = drop (length ip) s1"
  define has_frac where "has_frac = (s2 \<noteq> [] \<and> hd s2 = 0x2E)"
  define fd where "fd = (if has_frac then takeWhile is_digit (tl s2) else [])"
  define s3 where "s3 = (if has_frac then drop (length fd) (tl s2) else s2)"
  define has_exp where "has_exp = (s3 \<noteq> [] \<and> (hd s3 = 0x65 \<or> hd s3 = 0x45))"
  define s4 where "s4 = (if has_exp then tl s3 else s3)"
  define s5 where "s5 = (if has_exp \<and> s4 \<noteq> [] \<and> (hd s4 = 0x2D \<or> hd s4 = 0x2B) then tl s4 else s4)"
  define ed where "ed = (if has_exp then takeWhile is_digit s5 else [])"
  define s6 where "s6 = drop (length ed) s5"
  have r: "rest = s6" "ip \<noteq> []"
    using assms
    unfolding lex_number_def Let_def s_def[symmetric] negative_def[symmetric] s1_def[symmetric]
      ip_def[symmetric] s2_def[symmetric] has_frac_def[symmetric] fd_def[symmetric]
      s3_def[symmetric] has_exp_def[symmetric] s4_def[symmetric] s5_def[symmetric]
      ed_def[symmetric] s6_def[symmetric]
    by (auto split: if_splits)
  have "length ip \<le> length s1"
    unfolding ip_def by (cases s1) (auto intro: le_trans[OF length_takeWhile_le])
  with r(2) have "length s2 < length s1" unfolding s2_def by (cases ip) auto
  moreover have "length s1 \<le> length s" unfolding s1_def by simp
  moreover have "length s3 \<le> length s2" unfolding s3_def by simp
  moreover have "length s4 \<le> length s3" unfolding s4_def by simp
  moreover have "length s5 \<le> length s4" unfolding s5_def by simp
  moreover have "length s6 \<le> length s5" unfolding s6_def by simp
  ultimately show ?thesis using r(1) by (simp add: s_def)
qed

function lex :: "jsstring \<Rightarrow> token list option" where
  "lex [] = Some []"
| "lex (c # cs) =
     (if is_json_space c then lex cs
      else if c = 0x7B then map_option (Cons TLBrace) (lex cs)
      else if c = 0x7D then map_option (Cons TRBrace) (lex cs)
      else if c = 0x5B then map_option (Cons TLBracket) (lex cs)
      else if c = 0x5D then map_option (Cons TRBracket) (lex cs)
      else if c = 0x3A then map_option (Cons TColon) (lex cs)
      else if c = 0x2C then map_option (Cons TComma) (lex cs)
      else if c = 0x22 then
        (case lex_string [] cs of
           None \<Rightarrow> None
         | Some (s, rest) \<Rightarrow> map_option (Cons (TString s)) (lex rest))
      else if c = 0x2D \<or> is_digit c then
        (case lex_number (c # cs) of
           None \<Rightarrow> None
         | Some ((m, e), rest) \<Rightarrow> map_option (Cons (TNumber m e)) (lex rest))
      else if take 4 (c # cs) = js ''true'' then map_option (Cons TTrue) (lex (drop 3 cs))
      else if take 5 (c # cs) = js ''false'' then map_option (Cons TFalse) (lex (drop 4 cs))
      else if take 4 (c # cs) = js ''null'' then map_option (Cons TNull) (lex (drop 3 cs))
      else None)"
  by pat_completeness auto
termination
  by (relation "measure length")
     (auto dest: lex_string_shorter lex_number_shorter)


text \<open>
  The grammar over tokens, with an explicit stack of the arrays and objects that are
  open. A frame of an object holds the key that waits for its value.
\<close>

datatype frame =
    InArray "json list"
  | InObject "(jsstring \<times> json) list" "jsstring option"

datatype expecting =
    WantValue
  | WantValueOrClose
  | WantKeyOrClose
  | WantKey
  | WantColon
  | AfterValue
  | Finished json

text \<open>A complete value goes to the innermost open array or object, or is the result.\<close>

fun put_value :: "json \<Rightarrow> frame list \<Rightarrow> (expecting \<times> frame list) option" where
  "put_value v [] = Some (Finished v, [])"
| "put_value v (InArray xs # st) = Some (AfterValue, InArray (v # xs) # st)"
| "put_value v (InObject ms (Some k) # st) = Some (AfterValue, InObject ((k, v) # ms) None # st)"
| "put_value v (InObject ms None # st) = None"

text \<open>The start of a value.\<close>

fun value_token :: "frame list \<Rightarrow> token \<Rightarrow> (expecting \<times> frame list) option" where
  "value_token st TLBracket = Some (WantValueOrClose, InArray [] # st)"
| "value_token st TLBrace = Some (WantKeyOrClose, InObject [] None # st)"
| "value_token st TTrue = put_value (JBool True) st"
| "value_token st TFalse = put_value (JBool False) st"
| "value_token st TNull = put_value JNull st"
| "value_token st (TString s) = put_value (JString s) st"
| "value_token st (TNumber m e) = put_value (JNumber m e) st"
| "value_token st t = None"

text \<open>The key of a member.\<close>

fun key_token :: "frame list \<Rightarrow> token \<Rightarrow> (expecting \<times> frame list) option" where
  "key_token (InObject ms None # st) (TString k) = Some (WantColon, InObject ms (Some k) # st)"
| "key_token st t = None"

fun parse_token :: "expecting \<times> frame list \<Rightarrow> token \<Rightarrow> (expecting \<times> frame list) option" where
  "parse_token (WantValue, st) t = value_token st t"
| "parse_token (WantValueOrClose, InArray xs # st) TRBracket = put_value (JArray (rev xs)) st"
| "parse_token (WantValueOrClose, st) t = value_token st t"
| "parse_token (WantKeyOrClose, InObject ms None # st) TRBrace = put_value (JObject (rev ms)) st"
| "parse_token (WantKeyOrClose, st) t = key_token st t"
| "parse_token (WantKey, st) t = key_token st t"
| "parse_token (WantColon, st) TColon = Some (WantValue, st)"
| "parse_token (AfterValue, InArray xs # st) TComma = Some (WantValue, InArray xs # st)"
| "parse_token (AfterValue, InArray xs # st) TRBracket = put_value (JArray (rev xs)) st"
| "parse_token (AfterValue, InObject ms None # st) TComma = Some (WantKey, InObject ms None # st)"
| "parse_token (AfterValue, InObject ms None # st) TRBrace = put_value (JObject (rev ms)) st"
| "parse_token s t = None"

fun parse_tokens :: "expecting \<times> frame list \<Rightarrow> token list \<Rightarrow> json option" where
  "parse_tokens (Finished v, st) [] = Some v"
| "parse_tokens s [] = None"
| "parse_tokens s (t # ts) =
     (case parse_token s t of None \<Rightarrow> None | Some s' \<Rightarrow> parse_tokens s' ts)"

text \<open>\<open>JSON.parse(text)\<close>: \<open>None\<close> when it throws a \<open>SyntaxError\<close>.\<close>

definition JSON_parse :: "jsstring \<Rightarrow> json option" where
  "JSON_parse text = (case lex text of None \<Rightarrow> None | Some ts \<Rightarrow> parse_tokens (WantValue, []) ts)"

subsection \<open>The Number value of a literal and \<open>Number::toString\<close>\<close>

text \<open>
  \<open>JSON.parse\<close> rounds the mathematical value of a number literal to the nearest binary64
  value (\<open>to_double\<close>). \<open>Number::toString\<close> prints the shortest decimal that rounds back to
  the same binary64 value: the closest one when there are two, and the one with the even
  last digit when the two are equally close. Both are computed here on rational numbers.
\<close>

datatype magnitude = Zero | Finite rat | Infinite

definition number_magnitude :: "int \<Rightarrow> int \<Rightarrow> magnitude" where
  "number_magnitude m e =
     (if m = 0 then Zero
      else case to_double (of_int \<bar>m\<bar> * pow_int 10 e) of
             None \<Rightarrow> Infinite
           | Some d \<Rightarrow> if d = 0 then Zero else Finite d)"

text \<open>
  The decimal digits \<open>s\<close> (a number of \<open>k\<close> digits) and the exponent \<open>n\<close> of
  \<open>Number::toString\<close>: \<open>s * 10 ^ (n - k)\<close> rounds to \<open>d\<close>, and \<open>k\<close> is as small as possible.
\<close>

definition digit_candidates :: "rat \<Rightarrow> int \<Rightarrow> nat \<Rightarrow> int list" where
  "digit_candidates d n0 k =
     (let scale = pow_int 10 (n0 - int k);
          t = \<lfloor>d / scale\<rfloor>;
          valid = filter (\<lambda>s. to_double (of_int s * scale) = Some d) [t, t + 1]
      in case valid of
           [s1, s2] \<Rightarrow>
             (let e1 = \<bar>of_int s1 * scale - d\<bar>; e2 = \<bar>of_int s2 * scale - d\<bar>
              in if e2 < e1 \<or> (e2 = e1 \<and> even s2) then [s2] else [s1])
         | _ \<Rightarrow> valid)"

fun shortest_from :: "rat \<Rightarrow> int \<Rightarrow> nat \<Rightarrow> nat \<Rightarrow> int \<times> nat" where
  "shortest_from d n0 k 0 = (\<lfloor>d / pow_int 10 (n0 - int k)\<rfloor>, k)"
| "shortest_from d n0 k (Suc fuel) =
     (case digit_candidates d n0 k of
        s # _ \<Rightarrow> (s, k)
      | [] \<Rightarrow> shortest_from d n0 (Suc k) fuel)"

definition shortest_digits :: "rat \<Rightarrow> int \<times> nat \<times> int" where
  "shortest_digits d =
     (let n0 = floor_log 10 d + 1;
          (s, k) = shortest_from d n0 1 17
      in if s = 10 ^ k then (10 ^ (k - 1), k, n0 + 1) else (s, k, n0))"

function digits_of :: "nat \<Rightarrow> jsstring" where
  "digits_of n = (if n < 10 then [of_nat (48 + n)] else digits_of (n div 10) @ [of_nat (48 + n mod 10)])"
  by pat_completeness auto
termination
  by (relation "measure id") auto

definition format_number :: "jsstring \<Rightarrow> int \<Rightarrow> jsstring" where
  "format_number ds n =
     (let k = int (length ds) in
      if k \<le> n \<and> n \<le> 21 then ds @ replicate (nat (n - k)) 0x30
      else if 0 < n \<and> n \<le> 21 then take (nat n) ds @ 0x2E # drop (nat n) ds
      else if - 6 < n \<and> n \<le> 0 then [0x30, 0x2E] @ replicate (nat (- n)) 0x30 @ ds
      else
        (let ex = (if 0 \<le> n - 1 then [0x2B] else [0x2D]) @ digits_of (nat \<bar>n - 1\<bar>)
         in if k = 1 then ds @ 0x65 # ex
            else hd ds # 0x2E # tl ds @ 0x65 # ex))"

text \<open>\<open>String(x)\<close> for the Number value \<open>x\<close> of the literal \<open>m * 10 ^ e\<close>.\<close>

definition number_to_string :: "int \<Rightarrow> int \<Rightarrow> jsstring" where
  "number_to_string m e =
     (case number_magnitude m e of
        Zero \<Rightarrow> [0x30]
      | Infinite \<Rightarrow> (if m < 0 then [0x2D] else []) @ js ''Infinity''
      | Finite d \<Rightarrow>
          (let (s, k, n) = shortest_digits d
           in (if m < 0 then [0x2D] else []) @ format_number (digits_of (nat s)) n))"

subsection \<open>Reading \<open>parsed.response\<close> and appending it\<close>

text \<open>
  Reading a property of \<open>null\<close> throws a \<open>TypeError\<close>. An object has the property when
  it has a member of that name, the last one if there are several; every other value
  yields \<open>undefined\<close>.
\<close>

datatype property = Throws | Undefined | Value json

fun get_response :: "json \<Rightarrow> property" where
  "get_response JNull = Throws"
| "get_response (JObject ms) =
     (case map_of (rev ms) (js ''response'') of None \<Rightarrow> Undefined | Some v \<Rightarrow> Value v)"
| "get_response v = Undefined"

text \<open>
  The condition \<open>if (parsed.response)\<close>: \<open>null\<close>, \<open>false\<close>, zero and the empty string
  are falsy.
\<close>

fun truthy :: "json \<Rightarrow> bool" where
  "truthy JNull = False"
| "truthy (JBool b) = b"
| "truthy (JNumber m e) = (number_magnitude m e \<noteq> Zero)"
| "truthy (JString s) = (s \<noteq> [])"
| "truthy (JArray xs) = True"
| "truthy (JObject ms) = True"

text \<open>
  The string that \<open>fullResponse += v\<close> appends. An array is joined with commas, with
  nothing for a \<open>null\<close> element; an object is \<open>[object Object]\<close>, and the conversion throws
  a \<open>TypeError\<close> (\<open>None\<close>) when the object has a member \<open>toString\<close>, which is never
  callable.
\<close>

fun join_comma :: "jsstring list \<Rightarrow> jsstring" where
  "join_comma [] = []"
| "join_comma [s] = s"
| "join_comma (s # t # ss) = s @ 0x2C # join_comma (t # ss)"

fun those_strings :: "jsstring option list \<Rightarrow> jsstring list option" where
  "those_strings [] = Some []"
| "those_strings (None # xs) = None"
| "those_strings (Some s # xs) = map_option (Cons s) (those_strings xs)"

fun to_string :: "json \<Rightarrow> jsstring option" where
  "to_string JNull = Some (js ''null'')"
| "to_string (JBool b) = Some (if b then js ''true'' else js ''false'')"
| "to_string (JNumber m e) = Some (number_to_string m e)"
| "to_string (JString s) = Some s"
| "to_string (JArray xs) =
     map_option join_comma
       (those_strings (map (\<lambda>x. if x = JNull then Some [] else to_string x) xs))"
| "to_string (JObject ms) =
     (if js ''toString'' \<in> fst ` set ms then None else Some (js ''[object Object]''))"

subsection \<open>The loop of \<open>handleSendMessage\<close>\<close>

text \<open>
  The \<open>try\<close> statement with its \<open>catch\<close> block: the new value of \<open>fullResponse\<close>. Whatever
  throws inside \<open>try\<close> (the parser, the property access or the conversion to a string)
  leads to \<open>fullResponse += data\<close>.
\<close>

definition try_parse :: "jsstring \<Rightarrow> jsstring \<Rightarrow> jsstring" where
  "try_parse fullResponse data =
     (case JSON_parse data of
        None \<Rightarrow> fullResponse @ data
      | Some parsed \<Rightarrow>
          (case get_response parsed of
             Throws \<Rightarrow> fullResponse @ data
           | Undefined \<Rightarrow> fullResponse
           | Value r \<Rightarrow>
               if truthy r then
                 (case to_string r of
                    None \<Rightarrow> fullResponse @ data
                  | Some s \<Rightarrow> fullResponse @ s)
               else fullResponse))"

text \<open>The body of \<open>for (const line of lines)\<close>: the new value of \<open>fullResponse\<close>.\<close>

definition process_line :: "jsstring \<Rightarrow> jsstring \<Rightarrow> jsstring" where
  "process_line fullResponse line =
     (let trimmed = trim line in
      if startsWith trimmed (js ''data: '') then
        (let data = drop 6 trimmed in
         if data = js ''[DONE]'' then fullResponse
         else try_parse fullResponse data)
      else fullResponse)"

text \<open>
  The state of the loop \<open>while (true)\<close>: the decoder, \<open>buffer\<close>, \<open>fullResponse\<close>, and the
  content of the assistant message as \<open>setMessages\<close> last set it.
\<close>

record stream_state =
  decoder :: TextDecoder
  buffer :: jsstring
  fullResponse :: jsstring
  content :: jsstring

definition initial_state :: stream_state where
  "initial_state = \<lparr>decoder = new_TextDecoder, buffer = [], fullResponse = [], content = []\<rparr>"

text \<open>One pass of the loop body, for a chunk \<open>value\<close> that \<open>reader.read()\<close> delivered.\<close>

definition on_chunk :: "stream_state \<Rightarrow> byte list \<Rightarrow> stream_state" where
  "on_chunk st value =
     (let (dec, chunk) = decode_stream (decoder st) value;
          buf = buffer st @ chunk;
          (popped, lines) = array_pop (split_lines buf);
          full = foldl process_line (fullResponse st) lines
      in \<lparr>decoder = dec, buffer = or_empty popped, fullResponse = full, content = full\<rparr>)"

text \<open>
  The loop over the results of \<open>reader.read()\<close>: the chunks in order, then \<open>done\<close>, at
  which the loop ends (\<open>if (done) break\<close>).
\<close>

fun read_loop :: "stream_state \<Rightarrow> byte list list \<Rightarrow> stream_state" where
  "read_loop st [] = st"
| "read_loop st (value # rest) = read_loop (on_chunk st value) rest"

section \<open>Properties of the edge directory\<close>

subsection \<open>Rounding to binary64\<close>

lemma pow_int_powi: "pow_int b k = b powi k"
  by (simp add: pow_int_def power_int_def power_inverse inverse_eq_divide power_one_over)

lemma ilog_bounds:
  assumes "2 \<le> b" "0 < n"
  shows "b ^ ilog b n \<le> n \<and> n < b ^ Suc (ilog b n)"
  using assms
proof (induction b n rule: ilog.induct)
  case (1 b n)
  show ?case
  proof (cases "n < b")
    case True
    with 1 show ?thesis by (simp add: ilog.simps[of b n])
  next
    case False
    with 1 have pos: "0 < n div b" by (simp add: div_greater_zero_iff)
    from 1 False have rec: "ilog b n = Suc (ilog b (n div b))" by (simp add: ilog.simps[of b n])
    from 1 False pos have IH: "b ^ ilog b (n div b) \<le> n div b \<and> n div b < b ^ Suc (ilog b (n div b))"
      by simp
    have lo: "b * b ^ ilog b (n div b) \<le> n"
    proof -
      have "b * b ^ ilog b (n div b) \<le> b * (n div b)" using IH by simp
      also have "\<dots> \<le> n" by simp
      finally show ?thesis .
    qed
    have hi: "n < b * b ^ Suc (ilog b (n div b))"
    proof -
      have "Suc (n div b) \<le> b ^ Suc (ilog b (n div b))" using IH by simp
      then have "b * Suc (n div b) \<le> b * b ^ Suc (ilog b (n div b))" by (rule mult_le_mono2)
      moreover have "n < b * Suc (n div b)" using 1(2) by (simp add: dividend_less_times_div)
      ultimately show ?thesis by linarith
    qed
    from lo hi rec show ?thesis by simp
  qed
qed

lemma floor_log_bounds:
  assumes "0 < x"
  shows "2 powi (floor_log 2 x) \<le> x \<and> x < 2 powi (floor_log 2 x + 1)"
proof -
  obtain p q where pq: "quotient_of x = (p, q)" by (cases "quotient_of x")
  then have q: "0 < q" using quotient_of_denom_pos by blast
  from pq have x: "x = of_int p / of_int q" by (rule quotient_of_div)
  with assms q have p: "0 < p" by (simp add: zero_less_divide_iff)
  define a where "a = ilog 2 (nat p)"
  define c where "c = ilog 2 (nat q)"
  define g where "g = int a - int c"
  from ilog_bounds[of 2 "nat p"] p have pa: "2 ^ a \<le> nat p" "nat p < 2 ^ Suc a"
    by (simp_all add: a_def)
  from ilog_bounds[of 2 "nat q"] q have qc: "2 ^ c \<le> nat q" "nat q < 2 ^ Suc c"
    by (simp_all add: c_def)
  have rp: "(2::rat) ^ a \<le> of_int p" "of_int p < (2::rat) ^ Suc a"
  proof -
    from pa(1) have "int (2 ^ a) \<le> p" using p by linarith
    then have "(of_int (int (2 ^ a)) :: rat) \<le> of_int p" by (simp only: of_int_le_iff)
    then show "(2::rat) ^ a \<le> of_int p" by simp
    from pa(2) have "p < int (2 ^ Suc a)" using p by linarith
    then have "(of_int p :: rat) < of_int (int (2 ^ Suc a))" by (simp only: of_int_less_iff)
    then show "of_int p < (2::rat) ^ Suc a" by simp
  qed
  have rq: "(2::rat) ^ c \<le> of_int q" "of_int q < (2::rat) ^ Suc c"
  proof -
    from qc(1) have "int (2 ^ c) \<le> q" using q by linarith
    then have "(of_int (int (2 ^ c)) :: rat) \<le> of_int q" by (simp only: of_int_le_iff)
    then show "(2::rat) ^ c \<le> of_int q" by simp
    from qc(2) have "q < int (2 ^ Suc c)" using q by linarith
    then have "(of_int q :: rat) < of_int (int (2 ^ Suc c))" by (simp only: of_int_less_iff)
    then show "of_int q < (2::rat) ^ Suc c" by simp
  qed
  have qpos: "(0::rat) < of_int q" using q by simp
  have g1: "(2::rat) powi (g + 1) = 2 ^ Suc a / 2 ^ c"
    by (simp add: g_def power_int_diff power_int_add)
  have g0: "(2::rat) powi (g - 1) = 2 ^ a / 2 ^ Suc c"
    by (simp add: g_def power_int_diff power_int_add)
  have up: "x < 2 powi (g + 1)"
  proof -
    have "x < 2 ^ Suc a / of_int q" unfolding x using rp(2) qpos by (simp add: divide_strict_right_mono)
    also have "\<dots> \<le> 2 ^ Suc a / 2 ^ c" using rq(1) by (simp add: frac_le)
    finally show ?thesis by (simp only: g1)
  qed
  have lo: "2 powi (g - 1) < x"
  proof -
    have "(2::rat) ^ a / 2 ^ Suc c < 2 ^ a / of_int q"
      using rq(2) qpos by (intro divide_strict_left_mono) (simp_all)
    also have "\<dots> \<le> x" unfolding x using rp(1) qpos by (simp add: divide_right_mono)
    finally show ?thesis by (simp only: g0)
  qed
  have fl: "floor_log 2 x = (if 2 powi g \<le> x then g else g - 1)"
    by (simp add: floor_log_def pq Let_def a_def c_def g_def pow_int_powi)
  show ?thesis
  proof (cases "2 powi g \<le> x")
    case True
    with fl up show ?thesis by simp
  next
    case False
    with fl lo show ?thesis by simp
  qed
qed

lemma floor_log_unique:
  assumes "0 < x" "2 powi e \<le> x" "x < 2 powi (e + 1)"
  shows "floor_log 2 x = e"
proof -
  let ?E = "floor_log 2 x"
  from floor_log_bounds[OF assms(1)] have b: "2 powi ?E \<le> x" "x < 2 powi (?E + 1)" by simp_all
  from b(1) assms(3) have "(2::rat) powi ?E < 2 powi (e + 1)" by (rule le_less_trans)
  then have 1: "?E < e + 1"
    using power_int_increasing[of "e + 1" ?E "2::rat"] by (cases "?E < e + 1") simp_all
  from assms(2) b(2) have "(2::rat) powi e < 2 powi (?E + 1)" by (rule le_less_trans)
  then have 2: "e < ?E + 1"
    using power_int_increasing[of "?E + 1" e "2::rat"] by (cases "e < ?E + 1") simp_all
  from 1 2 show ?thesis by simp
qed

lemma to_double_at:
  assumes "0 < x" "2 powi e \<le> x" "x < 2 powi (e + 1)"
  shows "to_double x =
           (let quantum = 2 powi (max e (- 1022) - 52);
                d = of_int (round_half_even (x / quantum)) * quantum
            in if 2 ^ 1024 \<le> d then None else Some d)"
proof -
  from assms have "floor_log 2 x = e" by (rule floor_log_unique)
  then show ?thesis by (simp add: to_double_def pow_int_powi)
qed

lemma floor_divide_numeral_rat: "\<lfloor>numeral a / numeral b :: rat\<rfloor> = numeral a div numeral b"
  using floor_divide_of_int_eq[of "numeral a" "numeral b", where ?'a = rat] by simp

lemmas round_eval = round_half_even_def Let_def floor_divide_numeral_rat

lemma round_half_even_le:
  assumes "z \<le> of_int N"
  shows "round_half_even z \<le> N"
proof -
  from assms have f: "\<lfloor>z\<rfloor> \<le> N" by (simp add: floor_le_iff)
  show ?thesis
  proof (cases "\<lfloor>z\<rfloor> = N")
    case True
    then have "of_int N \<le> z" by (metis of_int_floor_le)
    with assms have "z = of_int N" by simp
    then show ?thesis by (simp add: round_half_even_def)
  next
    case False
    with f have "\<lfloor>z\<rfloor> + 1 \<le> N" by simp
    then show ?thesis by (simp add: round_half_even_def Let_def)
  qed
qed

lemma round_half_even_nonneg:
  assumes "0 \<le> z"
  shows "0 \<le> round_half_even z"
proof -
  from assms have "0 \<le> \<lfloor>z\<rfloor>" by simp
  then show ?thesis by (simp add: round_half_even_def Let_def)
qed

lemma to_double_bounded:
  assumes "0 < x" "x \<le> of_int n" "n < 2 ^ 53"
  shows "\<exists>d. to_double x = Some d \<and> 0 \<le> d \<and> d \<le> of_int n"
proof -
  define E where "E = floor_log 2 x"
  define k where "k = max E (- 1022) - 52"
  define m where "m = nat (- k)"
  from floor_log_bounds[OF assms(1)] have lo: "2 powi E \<le> x" by (simp add: E_def)
  have "E \<le> 52"
  proof (rule ccontr)
    assume "\<not> E \<le> 52"
    then have "53 \<le> E" by simp
    then have "(2::rat) powi 53 \<le> 2 powi E" by (intro power_int_increasing) simp_all
    with lo assms(2) have "(2::rat) powi 53 \<le> of_int n" by linarith
    moreover have "(of_int n :: rat) < of_int (2 ^ 53)" using assms(3) by (simp only: of_int_less_iff)
    ultimately show False by simp
  qed
  then have k: "k \<le> 0" by (simp add: k_def)
  then have q: "(2::rat) powi k = 1 / 2 ^ m"
    by (simp add: m_def power_int_def power_inverse inverse_eq_divide power_one_over)
  define r where "r = round_half_even (x / (2 powi k))"
  have xq: "x / (2 powi k) = x * 2 ^ m" by (simp add: q)
  have "x * 2 ^ m \<le> of_int (n * 2 ^ m)" using assms(2) by simp
  then have r_le: "r \<le> n * 2 ^ m" unfolding r_def xq by (rule round_half_even_le)
  have "0 \<le> x * 2 ^ m" using assms(1) by simp
  then have r_ge: "0 \<le> r" unfolding r_def xq by (rule round_half_even_nonneg)
  define d where "d = of_int r * (2::rat) powi k"
  have d_le: "d \<le> of_int n"
  proof -
    have "(of_int r :: rat) \<le> of_int (n * 2 ^ m)" using r_le by (simp only: of_int_le_iff)
    then have "(of_int r :: rat) \<le> of_int n * 2 ^ m" by simp
    then have "of_int r / 2 ^ m \<le> (of_int n :: rat)" by (simp add: pos_divide_le_eq)
    then show ?thesis by (simp add: d_def q)
  qed
  have d_ge: "0 \<le> d" using r_ge by (simp add: d_def q)
  have "(of_int n :: rat) < of_int (2 ^ 53)" using assms(3) by (simp only: of_int_less_iff)
  then have "of_int n < (2::rat) ^ 1024" by simp
  with d_le have small: "\<not> 2 ^ 1024 \<le> d" by linarith
  have "to_double x = Some d"
    using small by (simp add: to_double_def Let_def pow_int_powi E_def[symmetric] k_def[symmetric] r_def[symmetric] d_def[symmetric])
  with d_le d_ge show ?thesis by simp
qed

lemma round64_bounded:
  assumes "\<bar>x\<bar> \<le> of_int n" "n < 2 ^ 53"
  shows "\<exists>d. round64 x = Fin d \<and> \<bar>d\<bar> \<le> of_int n"
proof -
  consider "x = 0" | "0 < x" | "x < 0" by linarith
  then show ?thesis
  proof cases
    case 1
    with assms show ?thesis by (simp add: round64_def)
  next
    case 2
    with assms have "x \<le> of_int n" by simp
    from to_double_bounded[OF 2 this assms(2)] 2 show ?thesis
      by (auto simp add: round64_def)
  next
    case 3
    with assms have "0 < - x" "- x \<le> of_int n" by simp_all
    from to_double_bounded[OF this assms(2)] 3 show ?thesis
      by (auto simp add: round64_def)
  qed
qed

lemma round64_neg: "round64 (- x) = num_neg (round64 x)"
  by (cases "x = 0"; cases "0 < x") (auto simp add: round64_def split: option.splits)

subsection \<open>Arithmetic with \<open>NaN\<close>\<close>

lemma num_add_NaN [simp]: "num_add x NaN = NaN" by (cases x) simp_all
lemma num_mul_NaN [simp]: "num_mul x NaN = NaN" by (cases x) simp_all
lemma num_div_NaN [simp]: "num_div x NaN = NaN" by (cases x) simp_all
lemma Math_atan2_NaN [simp]: "Math_atan2 M y NaN = NaN" by (cases y) simp_all
lemma num_lt_NaN [simp]: "num_lt x NaN = False" by (cases x) simp_all

lemma haversine_NaN_lat: "haversineDistance M NaN b c d = NaN"
  by (simp add: haversineDistance_def toRad_def num_sub_def Let_def)

lemma haversine_NaN_lng: "haversineDistance M a NaN c d = NaN"
  by (simp add: haversineDistance_def toRad_def num_sub_def Let_def)

subsection \<open>The order of numbers\<close>

lemma num_lt_irrefl: "\<not> num_lt x x"
  by (cases x) simp_all

lemma num_lt_trans: "num_lt x y \<Longrightarrow> num_lt y z \<Longrightarrow> num_lt x z"
  by (cases x; cases y; cases z) simp_all

lemma num_lt_not_le: "num_lt x y \<Longrightarrow> \<not> num_le y x"
  by (cases x; cases y) simp_all

lemma num_lt_asym: "num_lt x y \<Longrightarrow> \<not> num_lt y x"
  by (cases x; cases y) simp_all

lemma num_le_lt_trans: "num_le x y \<Longrightarrow> num_lt y z \<Longrightarrow> num_lt x z"
  by (cases x; cases y; cases z) simp_all

lemma num_lt_PosInf: "num_lt x y \<Longrightarrow> num_lt x PosInf"
  by (cases x; cases y) simp_all

lemma num_not_lt_le: "x \<noteq> NaN \<Longrightarrow> y \<noteq> NaN \<Longrightarrow> \<not> num_lt y x \<Longrightarrow> num_le x y"
  by (cases x; cases y) simp_all

lemma num_not_le_lt: "x \<noteq> NaN \<Longrightarrow> y \<noteq> NaN \<Longrightarrow> \<not> num_le y x \<Longrightarrow> num_lt x y"
  by (cases x; cases y) simp_all

subsection \<open>The scan\<close>

lemma nearest_loop_scan:
  "(nearest_loop M a b es (n, m) = n \<and> (\<forall>e\<in>set es. \<not> num_lt (distance_to M a b e) m)) \<or>
   (\<exists>i<length es. nearest_loop M a b es (n, m) = Some (es ! i) \<and>
        num_lt (distance_to M a b (es ! i)) m \<and>
        (\<forall>j<length es. \<not> num_lt (distance_to M a b (es ! j)) (distance_to M a b (es ! i))) \<and>
        (\<forall>j<i. \<not> num_le (distance_to M a b (es ! j)) (distance_to M a b (es ! i))))"
proof (induction es arbitrary: n m)
  case Nil
  then show ?case by simp
next
  case (Cons e es)
  let ?D = "distance_to M a b"
  show ?case
  proof (cases "num_lt (?D e) m")
    case True
    then have step: "nearest_loop M a b (e # es) (n, m) = nearest_loop M a b es (Some e, ?D e)"
      by (simp add: distance_to_def)
    from Cons.IH[of "Some e" "?D e"] show ?thesis
    proof
      assume h: "nearest_loop M a b es (Some e, ?D e) = Some e \<and> (\<forall>x\<in>set es. \<not> num_lt (?D x) (?D e))"
      have "\<forall>j<length (e # es). \<not> num_lt (?D ((e # es) ! j)) (?D ((e # es) ! 0))"
        using h by (auto simp: nth_Cons num_lt_irrefl split: nat.splits)
      with h True step show ?thesis
        by (intro disjI2 exI[of _ 0]) simp
    next
      assume "\<exists>i<length es. nearest_loop M a b es (Some e, ?D e) = Some (es ! i) \<and>
                num_lt (?D (es ! i)) (?D e) \<and>
                (\<forall>j<length es. \<not> num_lt (?D (es ! j)) (?D (es ! i))) \<and>
                (\<forall>j<i. \<not> num_le (?D (es ! j)) (?D (es ! i)))"
      then obtain i where i: "i < length es" "nearest_loop M a b es (Some e, ?D e) = Some (es ! i)"
        "num_lt (?D (es ! i)) (?D e)" "\<forall>j<length es. \<not> num_lt (?D (es ! j)) (?D (es ! i))"
        "\<forall>j<i. \<not> num_le (?D (es ! j)) (?D (es ! i))"
        by blast
      have 1: "\<forall>j<length (e # es). \<not> num_lt (?D ((e # es) ! j)) (?D ((e # es) ! Suc i))"
        using i num_lt_asym[OF i(3)] by (auto simp: nth_Cons split: nat.splits)
      have 2: "\<forall>j<Suc i. \<not> num_le (?D ((e # es) ! j)) (?D ((e # es) ! Suc i))"
        using i num_lt_not_le[OF i(3)] by (auto simp: nth_Cons split: nat.splits)
      have 3: "num_lt (?D ((e # es) ! Suc i)) m" using num_lt_trans[OF i(3) True] by simp
      have 4: "nearest_loop M a b (e # es) (n, m) = Some ((e # es) ! Suc i)"
        using step i by simp
      have 5: "Suc i < length (e # es)" using i by simp
      from 1 2 3 4 5 show ?thesis by blast
    qed
  next
    case False
    then have step: "nearest_loop M a b (e # es) (n, m) = nearest_loop M a b es (n, m)"
      by (simp add: distance_to_def)
    from Cons.IH[of n m] show ?thesis
    proof
      assume "nearest_loop M a b es (n, m) = n \<and> (\<forall>x\<in>set es. \<not> num_lt (?D x) m)"
      with False step show ?thesis by auto
    next
      assume "\<exists>i<length es. nearest_loop M a b es (n, m) = Some (es ! i) \<and>
                num_lt (?D (es ! i)) m \<and>
                (\<forall>j<length es. \<not> num_lt (?D (es ! j)) (?D (es ! i))) \<and>
                (\<forall>j<i. \<not> num_le (?D (es ! j)) (?D (es ! i)))"
      then obtain i where i: "i < length es" "nearest_loop M a b es (n, m) = Some (es ! i)"
        "num_lt (?D (es ! i)) m" "\<forall>j<length es. \<not> num_lt (?D (es ! j)) (?D (es ! i))"
        "\<forall>j<i. \<not> num_le (?D (es ! j)) (?D (es ! i))"
        by blast
      have a1: "\<not> num_lt (?D e) (?D (es ! i))"
        using num_lt_trans[OF _ i(3)] False by blast
      have a2: "\<not> num_le (?D e) (?D (es ! i))"
        using num_le_lt_trans[OF _ i(3)] False by blast
      have 1: "\<forall>j<length (e # es). \<not> num_lt (?D ((e # es) ! j)) (?D ((e # es) ! Suc i))"
        using i a1 by (auto simp: nth_Cons split: nat.splits)
      have 2: "\<forall>j<Suc i. \<not> num_le (?D ((e # es) ! j)) (?D ((e # es) ! Suc i))"
        using i a2 by (auto simp: nth_Cons split: nat.splits)
      have 3: "num_lt (?D ((e # es) ! Suc i)) m" using i by simp
      have 4: "nearest_loop M a b (e # es) (n, m) = Some ((e # es) ! Suc i)"
        using step i by simp
      have 5: "Suc i < length (e # es)" using i by simp
      from 1 2 3 4 5 show ?thesis by blast
    qed
  qed
qed

lemma nearest_loop_first_min:
  assumes "es \<noteq> []"
  shows "\<exists>i<length es. nearest_loop M a b es (element0 es, PosInf) = Some (es ! i) \<and>
           (if num_lt (distance_to M a b (es ! i)) PosInf
            then (\<forall>j<length es. \<not> num_lt (distance_to M a b (es ! j)) (distance_to M a b (es ! i))) \<and>
                 (\<forall>j<i. \<not> num_le (distance_to M a b (es ! j)) (distance_to M a b (es ! i)))
            else i = 0 \<and> (\<forall>j<length es. \<not> num_lt (distance_to M a b (es ! j)) PosInf))"
proof -
  let ?D = "distance_to M a b"
  from assms have e0: "element0 es = Some (es ! 0)" and len: "0 < length es"
    by (cases es; simp add: element0_def)+
  from nearest_loop_scan[of M a b es "element0 es" PosInf] show ?thesis
  proof
    assume h: "nearest_loop M a b es (element0 es, PosInf) = element0 es \<and>
               (\<forall>e\<in>set es. \<not> num_lt (?D e) PosInf)"
    then have "\<forall>j<length es. \<not> num_lt (?D (es ! j)) PosInf" by simp
    with h e0 len show ?thesis by (intro exI[of _ 0]) simp
  next
    assume "\<exists>i<length es. nearest_loop M a b es (element0 es, PosInf) = Some (es ! i) \<and>
              num_lt (?D (es ! i)) PosInf \<and>
              (\<forall>j<length es. \<not> num_lt (?D (es ! j)) (?D (es ! i))) \<and>
              (\<forall>j<i. \<not> num_le (?D (es ! j)) (?D (es ! i)))"
    then obtain i where i: "i < length es" "nearest_loop M a b es (element0 es, PosInf) = Some (es ! i)"
        "num_lt (?D (es ! i)) PosInf" "\<forall>j<length es. \<not> num_lt (?D (es ! j)) (?D (es ! i))"
        "\<forall>j<i. \<not> num_le (?D (es ! j)) (?D (es ! i))"
      by blast
    then show ?thesis by (intro exI[of _ i]) simp
  qed
qed

lemma nearest_loop_mem:
  "\<exists>e\<in>insert n (set es). nearest_loop M a b es (Some n, m) = Some e"
  by (induction es arbitrary: n m) (auto simp: Let_def)

lemma nearest_loop_all_NaN:
  "\<forall>e\<in>set es. haversineDistance M a b (lat e) (lng e) = NaN \<Longrightarrow> nearest_loop M a b es (n, m) = n"
  by (induction es arbitrary: n m) (auto simp: Let_def)

subsection \<open>Exchanging the two points\<close>

lemma num_neg_neg [simp]: "num_neg (num_neg x) = x"
  by (cases x) simp_all

lemma num_add_neg: "num_add (num_neg x) (num_neg y) = num_neg (num_add x y)"
proof (cases x; cases y)
  fix p q assume "x = Fin p" "y = Fin q"
  then show ?thesis using round64_neg[of "p + q"] by simp
qed simp_all

lemma num_sub_swap: "num_sub y x = num_neg (num_sub x y)"
proof -
  have "num_sub y x = num_add (num_neg x) (num_neg (num_neg y))"
    by (cases x; cases y) (simp_all add: num_sub_def add.commute)
  then show ?thesis by (simp only: num_add_neg num_sub_def)
qed

lemma num_mul_neg: "num_mul (num_neg x) y = num_neg (num_mul x y)"
proof (cases x; cases y)
  fix p q assume "x = Fin p" "y = Fin q"
  then show ?thesis using round64_neg[of "p * q"] by simp
qed (auto simp add: signed_inf_def)

lemma num_div_neg: "num_div (num_neg x) y = num_neg (num_div x y)"
proof (cases x; cases y)
  fix p q assume "x = Fin p" "y = Fin q"
  then show ?thesis using round64_neg[of "p / q"] by (auto simp add: signed_inf_def)
qed (auto simp add: signed_inf_def)

lemma num_mul_commute: "num_mul x y = num_mul y x"
  by (cases x; cases y) (simp_all add: mult.commute)

lemma toRad_neg: "toRad (num_neg x) = num_neg (toRad x)"
  by (simp add: toRad_def num_mul_neg num_div_neg)

lemma Math_sin_neg: "sound_libm M \<Longrightarrow> Math_sin M (num_neg x) = num_neg (Math_sin M x)"
  by (cases x) (simp_all add: sound_libm_def)

lemma num_sq_neg: "sound_libm M \<Longrightarrow> num_sq M (num_neg x) = num_sq M x"
  by (cases x) (simp_all add: sound_libm_def)

lemma half_angle_swap:
  assumes "sound_libm M"
  shows "num_sq M (Math_sin M (num_div (toRad (num_sub y x)) (Fin 2))) =
         num_sq M (Math_sin M (num_div (toRad (num_sub x y)) (Fin 2)))"
proof -
  have "num_div (toRad (num_sub y x)) (Fin 2) = num_neg (num_div (toRad (num_sub x y)) (Fin 2))"
    by (simp only: num_sub_swap[of y x] toRad_neg num_div_neg)
  then show ?thesis by (simp only: Math_sin_neg[OF assms] num_sq_neg[OF assms])
qed

lemma haversine_swap:
  assumes "sound_libm M"
  shows "haversineDistance M lat1 lng1 lat2 lng2 = haversineDistance M lat2 lng2 lat1 lng1"
  unfolding haversineDistance_def Let_def
  by (simp only: half_angle_swap[OF assms, of lat2 lat1] half_angle_swap[OF assms, of lng2 lng1]
        num_mul_commute[of "Math_cos M (toRad lat1)" "Math_cos M (toRad lat2)"])

subsection \<open>The distance of a point to itself\<close>

lemma round64_0 [simp]: "round64 0 = Fin 0"
  by (simp add: round64_def)

lemma round64_1 [simp]: "round64 1 = Fin 1"
proof -
  have "to_double 1 = Some 1"
    by (subst to_double_at[of _ 0]) (simp_all add: round_eval)
  then show ?thesis by (simp add: round64_def)
qed

lemma toRad_0: "toRad (Fin 0) = Fin 0"
  by (simp add: toRad_def Math_PI_def)

lemma haversine_diag:
  assumes "sound_libm M" "toRad (Fin x) = Fin r"
  shows "haversineDistance M (Fin x) (Fin y) (Fin x) (Fin y) = Fin 0"
proof -
  have sub: "num_sub (Fin x) (Fin x) = Fin 0" "num_sub (Fin y) (Fin y) = Fin 0"
    by (simp_all add: num_sub_def)
  have half: "num_sq M (Math_sin M (num_div (toRad (Fin 0)) (Fin 2))) = Fin 0"
    by (simp add: toRad_0)
  obtain c where c: "Math_cos M (Fin r) = Fin c" "\<bar>c\<bar> \<le> 1"
    using assms(1) by (cases "r = 0") (simp_all add: sound_libm_def)
  have "\<bar>c\<bar> * \<bar>c\<bar> \<le> 1 * 1"
    using c(2) by (intro mult_mono) simp_all
  then have "\<bar>c * c\<bar> \<le> of_int 1"
    by (simp add: abs_mult)
  from round64_bounded[OF this] obtain d where d: "round64 (c * c) = Fin d" by auto
  have a: "num_add (Fin 0) (num_mul (num_mul (Math_cos M (Fin r)) (Math_cos M (Fin r))) (Fin 0)) = Fin 0"
    by (simp only: c(1)) (simp add: d)
  obtain s where s: "Math_sqrt M (Fin 1) = Fin s" "0 \<le> s"
    using assms(1) by (simp add: sound_libm_def)
  have "\<bar>12742 :: rat\<bar> \<le> of_int 12742" by simp
  from round64_bounded[OF this] obtain k where k: "round64 12742 = Fin k" by auto
  have "haversineDistance M (Fin x) (Fin y) (Fin x) (Fin y) =
          num_mul (num_mul (Fin 6371) (Fin 2))
            (Math_atan2 M (Math_sqrt M (Fin 0)) (Math_sqrt M (num_sub (Fin 1) (Fin 0))))"
    unfolding haversineDistance_def Let_def by (simp only: sub half assms(2) a)
  also have "\<dots> = Fin 0"
    using s by (simp add: num_sub_def k)
  finally show ?thesis .
qed

subsection \<open>A latitude beyond the range of \<open>toRad\<close>\<close>

lemma haversine_overflow:
  assumes "toRad lat1 = PosInf"
  shows "haversineDistance M lat1 lng1 lat2 lng2 = NaN"
  by (simp add: haversineDistance_def Let_def assms)

lemma toRad_overflow: "toRad (Fin (2 ^ 1023)) = PosInf"
proof -
  have "to_double (2 ^ 1023 * (884279719003555 / 281474976710656)) = None"
    by (subst to_double_at[of _ 1024]) (simp_all add: round_eval)
  then have "num_mul (Fin (2 ^ 1023)) Math_PI = PosInf"
    by (simp add: Math_PI_def round64_def)
  then show ?thesis by (simp add: toRad_def signed_inf_def)
qed

subsection \<open>The correctly rounded library\<close>

lemma nearest_double_minus: "nearest_double (- x) = - nearest_double x"
  by (simp add: nearest_double_def Let_def)

lemma pow_int_pos: "0 < pow_int 2 k"
  by (simp add: pow_int_def)

lemma nearest_double_nonneg:
  assumes "0 \<le> x"
  shows "0 \<le> nearest_double x"
proof (cases "x = 0")
  case True
  then show ?thesis by (simp add: nearest_double_def)
next
  case False
  with assms have x: "0 < x" by simp
  define q where "q = pow_int 2 (max \<lfloor>log 2 \<bar>x\<bar>\<rfloor> (- 1022) - 52)"
  have q: "0 < q" unfolding q_def by (rule pow_int_pos)
  then have "0 \<le> \<bar>x\<bar> / of_rat q" by simp
  then have "0 \<le> round_half_even (\<bar>x\<bar> / of_rat q)" by (rule round_half_even_nonneg)
  then have "0 \<le> of_int (round_half_even (\<bar>x\<bar> / of_rat q)) * q" using q by simp
  then show ?thesis using x by (simp add: nearest_double_def Let_def q_def)
qed

lemma nearest_double_le_one:
  assumes "0 \<le> x" "x \<le> 1"
  shows "nearest_double x \<le> 1"
proof (cases "x = 0")
  case True
  then show ?thesis by (simp add: nearest_double_def)
next
  case False
  with assms have x: "0 < x" by simp
  define k where "k = max \<lfloor>log 2 \<bar>x\<bar>\<rfloor> (- 1022) - 52"
  define m where "m = nat (- k)"
  have "log 2 \<bar>x\<bar> \<le> 0" using x assms(2) by simp
  then have "\<lfloor>log 2 \<bar>x\<bar>\<rfloor> \<le> 0" by (simp add: floor_le_iff)
  then have k: "k \<le> 0" by (simp add: k_def)
  then have q: "pow_int 2 k = 1 / 2 ^ m"
    by (simp add: pow_int_def m_def)
  have "\<bar>x\<bar> / of_rat (pow_int 2 k) = x * 2 ^ m"
    using x by (simp add: q of_rat_divide of_rat_power)
  moreover have "x * 2 ^ m \<le> of_int (2 ^ m)" using assms(2) by simp
  ultimately have "round_half_even (\<bar>x\<bar> / of_rat (pow_int 2 k)) \<le> 2 ^ m"
    using round_half_even_le[of "x * 2 ^ m" "2 ^ m"] by simp
  then have "(of_int (round_half_even (\<bar>x\<bar> / of_rat (pow_int 2 k))) :: rat) \<le> of_int (2 ^ m)"
    by (simp only: of_int_le_iff)
  then have "of_int (round_half_even (\<bar>x\<bar> / of_rat (pow_int 2 k))) * pow_int 2 k \<le> 1"
    by (simp add: q pos_divide_le_eq)
  then show ?thesis using x by (simp add: nearest_double_def Let_def k_def)
qed

lemma nearest_double_abs_le_one:
  assumes "\<bar>x\<bar> \<le> 1"
  shows "\<bar>nearest_double x\<bar> \<le> 1"
proof (cases "0 \<le> x")
  case True
  with assms nearest_double_le_one[of x] nearest_double_nonneg[of x] show ?thesis by simp
next
  case False
  then have "0 \<le> - x" "- x \<le> 1" using assms by simp_all
  with nearest_double_le_one[of "- x"] nearest_double_nonneg[of "- x"] show ?thesis
    by (simp add: nearest_double_minus)
qed

lemma rounded_libm_sound: "sound_libm rounded_libm"
  by (simp add: sound_libm_def rounded_libm_def nearest_double_minus of_rat_minus
        nearest_double_abs_le_one nearest_double_nonneg zero_le_of_rat_iff less_imp_le)

lemma atan2_value_nonneg:
  assumes "y = PosInf \<or> (\<exists>s. y = Fin s \<and> 0 \<le> s)"
  shows "0 \<le> atan2_value y x"
proof -
  have fin: "0 \<le> atan2_real s t" if "0 \<le> s" for s t
  proof -
    have "0 \<le> arctan (s / t) + pi"
      using arctan_lbound[of "s / t"] pi_gt_zero by linarith
    moreover have "0 \<le> arctan (s / t)" if "0 < t" using that \<open>0 \<le> s\<close> by simp
    ultimately show ?thesis using that by (auto simp add: atan2_real_def)
  qed
  from assms show ?thesis
  proof
    assume "y = PosInf"
    then show ?thesis by (cases x) simp_all
  next
    assume "\<exists>s. y = Fin s \<and> 0 \<le> s"
    then obtain s where s: "y = Fin s" "0 \<le> s" by blast
    then show ?thesis using fin[of "of_rat s"] by (cases x) (simp_all add: zero_le_of_rat_iff)
  qed
qed

subsection \<open>The table\<close>

lemma edge_table_nonempty: "EDGE_LOCATIONS \<noteq> []"
  by (simp add: EDGE_LOCATIONS_def)

lemma round64_lat_range [simp]:
  assumes "\<bar>x\<bar> \<le> 90"
  shows "num_le (Fin (- 90)) (round64 x)" "num_le (round64 x) (Fin 90)"
proof -
  from assms have "\<bar>x\<bar> \<le> of_int 90" by simp
  from round64_bounded[OF this] obtain d where "round64 x = Fin d" "\<bar>d\<bar> \<le> 90" by auto
  then show "num_le (Fin (- 90)) (round64 x)" "num_le (round64 x) (Fin 90)" by simp_all
qed

lemma round64_lng_range [simp]:
  assumes "\<bar>x\<bar> \<le> 180"
  shows "num_le (Fin (- 180)) (round64 x)" "num_le (round64 x) (Fin 180)"
proof -
  from assms have "\<bar>x\<bar> \<le> of_int 180" by simp
  from round64_bounded[OF this] obtain d where "round64 x = Fin d" "\<bar>d\<bar> \<le> 180" by auto
  then show "num_le (Fin (- 180)) (round64 x)" "num_le (round64 x) (Fin 180)" by simp_all
qed

lemma toRad_finite:
  assumes "\<bar>x\<bar> \<le> 1000"
  shows "\<exists>r. toRad (Fin x) = Fin r"
proof -
  let ?p = "884279719003555 / 281474976710656 :: rat"
  have "\<bar>x * ?p\<bar> \<le> 1000 * 4"
    unfolding abs_mult using assms by (intro mult_mono) simp_all
  then have "\<bar>x * ?p\<bar> \<le> of_int 4000" by simp
  from round64_bounded[OF this] obtain p where p: "round64 (x * ?p) = Fin p" "\<bar>p\<bar> \<le> 4000" by auto
  have "\<bar>p / 180\<bar> \<le> of_int 4000" using p(2) by simp
  from round64_bounded[OF this] obtain r where "round64 (p / 180) = Fin r" by auto
  with p(1) show ?thesis by (simp add: toRad_def Math_PI_def)
qed

subsection \<open>Distances computed with the correctly rounded library\<close>

lemma to_double_nonneg:
  assumes "0 < x" "to_double x = Some d"
  shows "0 \<le> d"
proof -
  define q where "q = pow_int 2 (max (floor_log 2 x) (- 1022) - 52)"
  have q: "0 < q" unfolding q_def by (rule pow_int_pos)
  then have "0 \<le> x / q" using assms(1) by simp
  then have "0 \<le> round_half_even (x / q)" by (rule round_half_even_nonneg)
  then have "0 \<le> of_int (round_half_even (x / q)) * q" using q by simp
  with assms(2) show ?thesis
    by (simp add: to_double_def Let_def q_def[symmetric] split: if_splits)
qed

lemma round64_nonneg:
  assumes "0 \<le> x"
  shows "\<not> num_lt (round64 x) (Fin 0)"
proof (cases "x = 0")
  case True
  then show ?thesis by simp
next
  case False
  with assms have x: "0 < x" by simp
  show ?thesis
  proof (cases "to_double x")
    case None
    with x show ?thesis by (simp add: round64_def)
  next
    case (Some d)
    with to_double_nonneg[OF x Some] x show ?thesis by (simp add: round64_def)
  qed
qed

lemma Math_sqrt_rounded:
  "Math_sqrt rounded_libm a = NaN \<or> Math_sqrt rounded_libm a = PosInf \<or>
   (\<exists>s. Math_sqrt rounded_libm a = Fin s \<and> 0 \<le> s)"
  using rounded_libm_sound by (cases a) (auto simp add: sound_libm_def)

lemma Math_atan2_rounded:
  assumes "y = NaN \<or> y = PosInf \<or> (\<exists>s. y = Fin s \<and> 0 \<le> s)"
  shows "Math_atan2 rounded_libm y x = NaN \<or> (\<exists>t. Math_atan2 rounded_libm y x = Fin t \<and> 0 \<le> t)"
proof (cases "y = NaN \<or> x = NaN")
  case True
  then show ?thesis by auto
next
  case False
  with assms have y: "y = PosInf \<or> (\<exists>s. y = Fin s \<and> 0 \<le> s)" by simp
  have "0 \<le> nearest_double (atan2_value y x)"
    using atan2_value_nonneg[OF y] by (rule nearest_double_nonneg)
  then have "0 \<le> atan2_approx rounded_libm y x" by (simp add: rounded_libm_def)
  with False show ?thesis by (cases y; cases x) auto
qed

lemma haversine_rounded_nonneg:
  "\<not> num_lt (haversineDistance rounded_libm lat1 lng1 lat2 lng2) (Fin 0)"
proof -
  define a where "a = num_add (num_sq rounded_libm (Math_sin rounded_libm (num_div (toRad (num_sub lat2 lat1)) (Fin 2))))
                (num_mul (num_mul (Math_cos rounded_libm (toRad lat1)) (Math_cos rounded_libm (toRad lat2)))
                   (num_sq rounded_libm (Math_sin rounded_libm (num_div (toRad (num_sub lng2 lng1)) (Fin 2)))))"
  define t where "t = Math_atan2 rounded_libm (Math_sqrt rounded_libm a) (Math_sqrt rounded_libm (num_sub (Fin 1) a))"
  have h: "haversineDistance rounded_libm lat1 lng1 lat2 lng2 = num_mul (num_mul (Fin 6371) (Fin 2)) t"
    by (simp add: haversineDistance_def Let_def a_def t_def)
  have "\<bar>12742 :: rat\<bar> \<le> of_int 12742" by simp
  from round64_bounded[OF this] obtain k where k: "round64 12742 = Fin k" by auto
  have "\<not> num_lt (round64 12742) (Fin 0)" by (rule round64_nonneg) simp
  with k have k0: "0 \<le> k" by simp
  from Math_atan2_rounded[OF Math_sqrt_rounded, of a "Math_sqrt rounded_libm (num_sub (Fin 1) a)"]
  have "t = NaN \<or> (\<exists>u. t = Fin u \<and> 0 \<le> u)" by (simp add: t_def)
  then show ?thesis
  proof
    assume "t = NaN"
    then show ?thesis by (simp add: h)
  next
    assume "\<exists>u. t = Fin u \<and> 0 \<le> u"
    then obtain u where u: "t = Fin u" "0 \<le> u" by blast
    have "\<not> num_lt (round64 (k * u)) (Fin 0)" using k0 u(2) by (intro round64_nonneg) simp
    then show ?thesis by (simp add: h k u(1))
  qed
qed

lemma num_not_lt_PosInf: "x \<noteq> NaN \<Longrightarrow> \<not> num_lt x PosInf \<Longrightarrow> x = PosInf"
  by (cases x) simp_all

lemma overflow_query_all_NaN:
  "\<forall>e\<in>set EDGE_LOCATIONS. haversineDistance M (Fin (2 ^ 1023)) qlng (lat e) (lng e) = NaN"
  by (intro ballI haversine_overflow toRad_overflow)

lemma element0_table: "element0 EDGE_LOCATIONS = Some (EDGE_LOCATIONS ! 0)"
  by (simp add: EDGE_LOCATIONS_def element0_def)

subsection \<open>The nearest entry\<close>

text \<open>
  C1. For every query, finite or not, and every library, \<open>findNearestEdge\<close> returns an
  entry of the table. When the computed distance of that entry compares below
  \<open>Infinity\<close>, no entry has a smaller computed distance and no entry stored before it has
  a computed distance less than or equal to it (a \<open>NaN\<close> distance compares with nothing, and
  the loop passes over such an entry); otherwise no computed distance compares below
  \<open>Infinity\<close> and the entry is the first of the table. When no computed distance is \<open>NaN\<close>,
  the entry returned is at minimal computed distance and every entry stored before it is
  strictly farther, so among the entries at the minimal distance the first in the stored
  order is returned. An entry that is strictly nearer to its own coordinates than every
  other entry is returned for its own coordinates. The distances are the results of
  \<open>haversineDistance\<close>, the Haversine formula with the Earth radius 6371 in binary64
  arithmetic.
\<close>

theorem findNearestEdge_minimizes:
  "(\<exists>i<length EDGE_LOCATIONS.
      findNearestEdge M qlat qlng = Some (EDGE_LOCATIONS ! i) \<and>
      (if num_lt (distance_to M qlat qlng (EDGE_LOCATIONS ! i)) PosInf
       then (\<forall>j<length EDGE_LOCATIONS.
               \<not> num_lt (distance_to M qlat qlng (EDGE_LOCATIONS ! j))
                        (distance_to M qlat qlng (EDGE_LOCATIONS ! i))) \<and>
            (\<forall>j<i. \<not> num_le (distance_to M qlat qlng (EDGE_LOCATIONS ! j))
                             (distance_to M qlat qlng (EDGE_LOCATIONS ! i)))
       else i = 0 \<and>
            (\<forall>j<length EDGE_LOCATIONS.
               \<not> num_lt (distance_to M qlat qlng (EDGE_LOCATIONS ! j)) PosInf)) \<and>
      ((\<forall>e\<in>set EDGE_LOCATIONS. distance_to M qlat qlng e \<noteq> NaN) \<longrightarrow>
         (\<forall>j<length EDGE_LOCATIONS.
            num_le (distance_to M qlat qlng (EDGE_LOCATIONS ! i))
                   (distance_to M qlat qlng (EDGE_LOCATIONS ! j))) \<and>
         (\<forall>j<i. num_lt (distance_to M qlat qlng (EDGE_LOCATIONS ! i))
                        (distance_to M qlat qlng (EDGE_LOCATIONS ! j))))) \<and>
   (\<forall>P\<in>set EDGE_LOCATIONS.
      (\<forall>Q\<in>set EDGE_LOCATIONS.
         Q \<noteq> P \<longrightarrow> num_lt (distance_to M (lat P) (lng P) P) (distance_to M (lat P) (lng P) Q)) \<longrightarrow>
      findNearestEdge M (lat P) (lng P) = Some P)"
proof (intro conjI ballI impI)
  let ?D = "distance_to M qlat qlng"
  let ?T = EDGE_LOCATIONS
  from nearest_loop_first_min[OF edge_table_nonempty, of M qlat qlng]
  obtain i where i: "i < length ?T" "findNearestEdge M qlat qlng = Some (?T ! i)"
    and br: "if num_lt (?D (?T ! i)) PosInf
             then (\<forall>j<length ?T. \<not> num_lt (?D (?T ! j)) (?D (?T ! i))) \<and>
                  (\<forall>j<i. \<not> num_le (?D (?T ! j)) (?D (?T ! i)))
             else i = 0 \<and> (\<forall>j<length ?T. \<not> num_lt (?D (?T ! j)) PosInf)"
    unfolding findNearestEdge_def by blast
  have fin: "(\<forall>j<length ?T. num_le (?D (?T ! i)) (?D (?T ! j))) \<and>
             (\<forall>j<i. num_lt (?D (?T ! i)) (?D (?T ! j)))"
    if nn: "\<forall>e\<in>set ?T. ?D e \<noteq> NaN"
  proof (cases "num_lt (?D (?T ! i)) PosInf")
    case True
    with br have m: "\<forall>j<length ?T. \<not> num_lt (?D (?T ! j)) (?D (?T ! i))"
      and f: "\<forall>j<i. \<not> num_le (?D (?T ! j)) (?D (?T ! i))" by simp_all
    have "num_le (?D (?T ! i)) (?D (?T ! j))" if "j < length ?T" for j
      using m that nn i(1) by (intro num_not_lt_le) simp_all
    moreover have "num_lt (?D (?T ! i)) (?D (?T ! j))" if "j < i" for j
      using f that nn i(1) by (intro num_not_le_lt) simp_all
    ultimately show ?thesis by blast
  next
    case False
    with br have z: "i = 0" and a: "\<forall>j<length ?T. \<not> num_lt (?D (?T ! j)) PosInf" by simp_all
    have "?D (?T ! j) = PosInf" if "j < length ?T" for j
      using a that nn by (intro num_not_lt_PosInf) simp_all
    with z i(1) show ?thesis by simp
  qed
  from i br fin
  show "\<exists>i<length ?T.
      findNearestEdge M qlat qlng = Some (?T ! i) \<and>
      (if num_lt (?D (?T ! i)) PosInf
       then (\<forall>j<length ?T. \<not> num_lt (?D (?T ! j)) (?D (?T ! i))) \<and>
            (\<forall>j<i. \<not> num_le (?D (?T ! j)) (?D (?T ! i)))
       else i = 0 \<and> (\<forall>j<length ?T. \<not> num_lt (?D (?T ! j)) PosInf)) \<and>
      ((\<forall>e\<in>set ?T. ?D e \<noteq> NaN) \<longrightarrow>
         (\<forall>j<length ?T. num_le (?D (?T ! i)) (?D (?T ! j))) \<and>
         (\<forall>j<i. num_lt (?D (?T ! i)) (?D (?T ! j))))"
    by blast
next
  fix P :: EdgeLocation
  let ?T = EDGE_LOCATIONS
  let ?D = "distance_to M (lat P) (lng P)"
  assume P: "P \<in> set ?T"
    and u: "\<forall>Q\<in>set ?T. Q \<noteq> P \<longrightarrow> num_lt (?D P) (?D Q)"
  from P obtain p where p: "p < length ?T" "?T ! p = P" by (auto simp add: in_set_conv_nth)
  from nearest_loop_first_min[OF edge_table_nonempty, of M "lat P" "lng P"]
  obtain i where i: "i < length ?T" "findNearestEdge M (lat P) (lng P) = Some (?T ! i)"
    and br: "if num_lt (?D (?T ! i)) PosInf
             then (\<forall>j<length ?T. \<not> num_lt (?D (?T ! j)) (?D (?T ! i))) \<and>
                  (\<forall>j<i. \<not> num_le (?D (?T ! j)) (?D (?T ! i)))
             else i = 0 \<and> (\<forall>j<length ?T. \<not> num_lt (?D (?T ! j)) PosInf)"
    unfolding findNearestEdge_def by blast
  have "?T ! i = P"
  proof (rule ccontr)
    assume ne: "?T ! i \<noteq> P"
    from i(1) have "?T ! i \<in> set ?T" by simp
    with u ne have lt: "num_lt (?D P) (?D (?T ! i))" by blast
    show False
    proof (cases "num_lt (?D (?T ! i)) PosInf")
      case True
      with br p lt show False by auto
    next
      case False
      with br p have "\<not> num_lt (?D P) PosInf" by auto
      with num_lt_PosInf[OF lt] show False by simp
    qed
  qed
  with i(2) show "findNearestEdge M (lat P) (lng P) = Some P" by simp
qed

text \<open>
  With the correctly rounded library: the query at latitude \<open>2 ^ 1023\<close> falls to the first
  entry, no distance comparing below \<open>Infinity\<close>; the query at the coordinates of the first
  entry, San Jose, has the distance 0 to it and no negative distance, and returns it.
\<close>

theorem findNearestEdge_minimizes_witness:
  "findNearestEdge rounded_libm (Fin (2 ^ 1023)) (Fin 0) = Some (EDGE_LOCATIONS ! 0) \<and>
   findNearestEdge rounded_libm (lat (EDGE_LOCATIONS ! 0)) (lng (EDGE_LOCATIONS ! 0)) =
     Some (EDGE_LOCATIONS ! 0) \<and>
   distance_to rounded_libm (lat (EDGE_LOCATIONS ! 0)) (lng (EDGE_LOCATIONS ! 0)) (EDGE_LOCATIONS ! 0) =
     Fin 0 \<and>
   code (EDGE_LOCATIONS ! 0) = js ''SJC''"
proof -
  let ?T = EDGE_LOCATIONS
  note main = findNearestEdge_minimizes[THEN conjunct1]
  have first: "findNearestEdge rounded_libm (Fin (2 ^ 1023)) (Fin 0) = Some (?T ! 0)"
  proof -
    let ?D = "distance_to rounded_libm (Fin (2 ^ 1023)) (Fin 0)"
    from main[of rounded_libm "Fin (2 ^ 1023)" "Fin 0"]
    obtain i where i: "findNearestEdge rounded_libm (Fin (2 ^ 1023)) (Fin 0) = Some (?T ! i)"
      and br: "if num_lt (?D (?T ! i)) PosInf
               then (\<forall>j<length ?T. \<not> num_lt (?D (?T ! j)) (?D (?T ! i))) \<and>
                    (\<forall>j<i. \<not> num_le (?D (?T ! j)) (?D (?T ! i)))
               else i = 0 \<and> (\<forall>j<length ?T. \<not> num_lt (?D (?T ! j)) PosInf)"
      by blast
    have "?D (?T ! i) = NaN"
      unfolding distance_to_def by (rule haversine_overflow[OF toRad_overflow])
    with br have "i = 0" by (simp only: num_lt.simps if_False)
    with i show ?thesis by simp
  qed
  have self: "findNearestEdge rounded_libm (lat (?T ! 0)) (lng (?T ! 0)) = Some (?T ! 0) \<and>
              distance_to rounded_libm (lat (?T ! 0)) (lng (?T ! 0)) (?T ! 0) = Fin 0"
  proof -
    let ?D = "distance_to rounded_libm (lat (?T ! 0)) (lng (?T ! 0))"
    have "\<bar>37.36 :: rat\<bar> \<le> of_int 38" "\<bar>- 121.93 :: rat\<bar> \<le> of_int 122" by simp_all
    from round64_bounded[OF this(1)] round64_bounded[OF this(2)]
    obtain x y where xy: "round64 37.36 = Fin x" "\<bar>x\<bar> \<le> 38" "round64 (- 121.93) = Fin y" by auto
    have t: "lat (?T ! 0) = round64 37.36" "lng (?T ! 0) = round64 (- 121.93)"
      by (simp_all add: EDGE_LOCATIONS_def)
    have c: "lat (?T ! 0) = Fin x" "lng (?T ! 0) = Fin y"
      by (simp_all only: t xy)
    from toRad_finite[of x] xy(2) obtain r where r: "toRad (Fin x) = Fin r" by auto
    have d0: "?D (?T ! 0) = Fin 0"
      unfolding distance_to_def c by (rule haversine_diag[OF rounded_libm_sound r])
    from main[of rounded_libm "lat (?T ! 0)" "lng (?T ! 0)"]
    obtain i where i: "findNearestEdge rounded_libm (lat (?T ! 0)) (lng (?T ! 0)) = Some (?T ! i)"
      and br: "if num_lt (?D (?T ! i)) PosInf
               then (\<forall>j<length ?T. \<not> num_lt (?D (?T ! j)) (?D (?T ! i))) \<and>
                    (\<forall>j<i. \<not> num_le (?D (?T ! j)) (?D (?T ! i)))
               else i = 0 \<and> (\<forall>j<length ?T. \<not> num_lt (?D (?T ! j)) PosInf)"
      by blast
    have "i = 0"
    proof (cases "num_lt (?D (?T ! i)) PosInf")
      case True
      with br have f: "\<forall>j<i. \<not> num_le (?D (?T ! j)) (?D (?T ! i))" by simp
      have nn: "\<not> num_lt (?D (?T ! i)) (Fin 0)"
        unfolding distance_to_def by (rule haversine_rounded_nonneg)
      from True nn have "num_le (Fin 0) (?D (?T ! i))" by (cases "?D (?T ! i)") simp_all
      with f d0 show ?thesis by (cases "i = 0") auto
    next
      case False
      with br show ?thesis by simp
    qed
    with i d0 show ?thesis by simp
  qed
  have "code (?T ! 0) = js ''SJC''" by (simp add: EDGE_LOCATIONS_def)
  with first self show ?thesis by simp
qed

text \<open>
  A finite query can have \<open>NaN\<close> for every computed distance. At latitude \<open>2 ^ 1023\<close> the
  product \<open>deg * Math.PI\<close> of \<open>toRad\<close> overflows to \<open>Infinity\<close> and the cosine of \<open>Infinity\<close> is
  \<open>NaN\<close>, whatever the library: the first entry is returned, and its distance is not less
  than or equal to the distance of the second entry.
\<close>

theorem findNearestEdge_overflow_counterexample:
  "findNearestEdge rounded_libm (Fin (2 ^ 1023)) (Fin 0) = Some (EDGE_LOCATIONS ! 0) \<and>
   distance_to rounded_libm (Fin (2 ^ 1023)) (Fin 0) (EDGE_LOCATIONS ! 0) = NaN \<and>
   \<not> num_le (distance_to rounded_libm (Fin (2 ^ 1023)) (Fin 0) (EDGE_LOCATIONS ! 0))
            (distance_to rounded_libm (Fin (2 ^ 1023)) (Fin 0) (EDGE_LOCATIONS ! 1))"
proof -
  have "findNearestEdge rounded_libm (Fin (2 ^ 1023)) (Fin 0) = element0 EDGE_LOCATIONS"
    unfolding findNearestEdge_def using overflow_query_all_NaN by (rule nearest_loop_all_NaN)
  then have r: "findNearestEdge rounded_libm (Fin (2 ^ 1023)) (Fin 0) = Some (EDGE_LOCATIONS ! 0)"
    by (simp only: element0_table)
  have d: "distance_to rounded_libm (Fin (2 ^ 1023)) (Fin 0) (EDGE_LOCATIONS ! 0) = NaN"
    unfolding distance_to_def by (rule haversine_overflow[OF toRad_overflow])
  have "\<not> num_le NaN (distance_to rounded_libm (Fin (2 ^ 1023)) (Fin 0) (EDGE_LOCATIONS ! 1))"
    by simp
  with r d show ?thesis by (simp only: simp_thms)
qed

subsection \<open>Symmetry of the distance\<close>

text \<open>
  C8. With a library whose sine is odd and whose square is even, whose cosines lie
  between -1 and 1 and whose square roots are not negative, \<open>haversineDistance\<close> computes
  the same value in both directions for every two coordinate pairs, the special values
  included, and the two results are equal under \<open>===\<close> exactly when that value is not
  \<open>NaN\<close>. The distance from a finite coordinate pair to itself is 0 under \<open>===\<close> whenever
  \<open>toRad\<close> of its latitude is finite, that is, whenever \<open>deg * Math.PI\<close> does not overflow.
\<close>

theorem haversineDistance_symmetric:
  assumes "sound_libm M"
  shows "haversineDistance M lat1 lng1 lat2 lng2 = haversineDistance M lat2 lng2 lat1 lng1 \<and>
         (num_eq (haversineDistance M lat1 lng1 lat2 lng2) (haversineDistance M lat2 lng2 lat1 lng1)
            \<longleftrightarrow> haversineDistance M lat1 lng1 lat2 lng2 \<noteq> NaN) \<and>
         (toRad (Fin x) = Fin r \<longrightarrow>
            num_eq (haversineDistance M (Fin x) (Fin y) (Fin x) (Fin y)) (Fin 0))"
proof (intro conjI impI)
  show sw: "haversineDistance M lat1 lng1 lat2 lng2 = haversineDistance M lat2 lng2 lat1 lng1"
    using assms by (rule haversine_swap)
  show "num_eq (haversineDistance M lat1 lng1 lat2 lng2) (haversineDistance M lat2 lng2 lat1 lng1)
          \<longleftrightarrow> haversineDistance M lat1 lng1 lat2 lng2 \<noteq> NaN"
    unfolding sw[symmetric] by (cases "haversineDistance M lat1 lng1 lat2 lng2") simp_all
next
  assume "toRad (Fin x) = Fin r"
  with assms have "haversineDistance M (Fin x) (Fin y) (Fin x) (Fin y) = Fin 0"
    by (rule haversine_diag)
  then show "num_eq (haversineDistance M (Fin x) (Fin y) (Fin x) (Fin y)) (Fin 0)" by simp
qed

theorem haversineDistance_symmetric_witness:
  "haversineDistance rounded_libm (Fin 37.5) (Fin (- 122)) (Fin 51.5) (Fin (- 0.5)) =
     haversineDistance rounded_libm (Fin 51.5) (Fin (- 0.5)) (Fin 37.5) (Fin (- 122)) \<and>
   num_eq (haversineDistance rounded_libm (Fin 37.5) (Fin (- 122)) (Fin 37.5) (Fin (- 122))) (Fin 0)"
proof -
  from toRad_finite[of "37.5"] obtain r where r: "toRad (Fin 37.5) = Fin r" by auto
  from haversineDistance_symmetric[OF rounded_libm_sound,
      of "Fin 37.5" "Fin (- 122)" "Fin 51.5" "Fin (- 0.5)" "37.5" r "- 122"] r
  show ?thesis by blast
qed

text \<open>
  At latitude \<open>2 ^ 1023\<close> the product \<open>deg * Math.PI\<close> overflows, and the distance from the
  coordinate pair to itself is \<open>NaN\<close>, which is not equal to 0.
\<close>

theorem haversineDistance_overflow_counterexample:
  "haversineDistance rounded_libm (Fin (2 ^ 1023)) (Fin 0) (Fin (2 ^ 1023)) (Fin 0) = NaN \<and>
   \<not> num_eq (haversineDistance rounded_libm (Fin (2 ^ 1023)) (Fin 0) (Fin (2 ^ 1023)) (Fin 0)) (Fin 0)"
proof -
  have "haversineDistance rounded_libm (Fin (2 ^ 1023)) (Fin 0) (Fin (2 ^ 1023)) (Fin 0) = NaN"
    by (rule haversine_overflow[OF toRad_overflow])
  moreover have "\<not> num_eq NaN (Fin 0)" by simp
  ultimately show ?thesis by (simp only: simp_thms)
qed

subsection \<open>Totality\<close>

text \<open>
  C10. \<open>findNearestEdge\<close> returns an entry of the table for every pair of numbers, the
  special values included; when an argument is \<open>NaN\<close>, every distance is \<open>NaN\<close>, no
  comparison \<open>dist < minDist\<close> holds, and the first entry of the table is returned.
\<close>

theorem findNearestEdge_total:
  "(\<exists>e\<in>set EDGE_LOCATIONS. findNearestEdge M qlat qlng = Some e) \<and>
   (qlat = NaN \<or> qlng = NaN \<longrightarrow>
      (\<forall>e. haversineDistance M qlat qlng (lat e) (lng e) = NaN) \<and>
      (\<forall>minDist. \<not> num_lt NaN minDist) \<and>
      findNearestEdge M qlat qlng = Some (EDGE_LOCATIONS ! 0))"
proof (intro conjI impI)
  obtain e0 rest where t: "EDGE_LOCATIONS = e0 # rest"
    using edge_table_nonempty by (cases EDGE_LOCATIONS) auto
  from nearest_loop_mem[of e0 EDGE_LOCATIONS M qlat qlng PosInf]
  show "\<exists>e\<in>set EDGE_LOCATIONS. findNearestEdge M qlat qlng = Some e"
    unfolding findNearestEdge_def by (simp add: t element0_def)
next
  assume "qlat = NaN \<or> qlng = NaN"
  then show "\<forall>e. haversineDistance M qlat qlng (lat e) (lng e) = NaN"
    using haversine_NaN_lat haversine_NaN_lng by blast
next
  show "\<forall>minDist. \<not> num_lt NaN minDist" by simp
next
  assume "qlat = NaN \<or> qlng = NaN"
  then have "\<forall>e\<in>set EDGE_LOCATIONS. haversineDistance M qlat qlng (lat e) (lng e) = NaN"
    using haversine_NaN_lat haversine_NaN_lng by blast
  then have "findNearestEdge M qlat qlng = element0 EDGE_LOCATIONS"
    unfolding findNearestEdge_def by (rule nearest_loop_all_NaN)
  also have "\<dots> = Some (EDGE_LOCATIONS ! 0)"
    by (rule element0_table)
  finally show "findNearestEdge M qlat qlng = Some (EDGE_LOCATIONS ! 0)" .
qed

theorem findNearestEdge_total_witness:
  "findNearestEdge rounded_libm NaN (Fin 0) = Some (EDGE_LOCATIONS ! 0) \<and>
   haversineDistance rounded_libm NaN (Fin 0) (round64 37.36) (round64 (-121.93)) = NaN \<and>
   code (EDGE_LOCATIONS ! 0) = js ''SJC''"
proof -
  have "lat (EDGE_LOCATIONS ! 0) = round64 37.36" "lng (EDGE_LOCATIONS ! 0) = round64 (-121.93)"
       "code (EDGE_LOCATIONS ! 0) = js ''SJC''"
    by (simp_all add: EDGE_LOCATIONS_def)
  with findNearestEdge_total[of rounded_libm NaN "Fin 0"] show ?thesis by metis
qed

subsection \<open>Lookup by code\<close>

lemma find_distinct_key:
  "distinct (map f xs) \<Longrightarrow> e \<in> set xs \<Longrightarrow> find (\<lambda>x. f x = f e) xs = Some e"
  by (induction xs) (auto simp: rev_image_eqI)

lemma edge_codes_distinct: "distinct (map code EDGE_LOCATIONS)"
  by (simp add: EDGE_LOCATIONS_def js_def)

text \<open>
  C7. \<open>getEdgeByCode\<close> depends on its argument and the constant table only. It returns
  nothing exactly when no entry has the given code, compared code unit by code unit,
  and it returns the entry that has the code when there is one.
\<close>

theorem getEdgeByCode_exact:
  "(getEdgeByCode c = None \<longleftrightarrow> (\<forall>e\<in>set EDGE_LOCATIONS. code e \<noteq> c)) \<and>
   (\<forall>e\<in>set EDGE_LOCATIONS. code e = c \<longrightarrow> getEdgeByCode c = Some e)"
proof (intro conjI ballI impI)
  show "getEdgeByCode c = None \<longleftrightarrow> (\<forall>e\<in>set EDGE_LOCATIONS. code e \<noteq> c)"
    unfolding getEdgeByCode_def by (auto simp: find_None_iff)
next
  fix e assume "e \<in> set EDGE_LOCATIONS" "code e = c"
  then show "getEdgeByCode c = Some e"
    unfolding getEdgeByCode_def using find_distinct_key[OF edge_codes_distinct] by blast
qed

theorem getEdgeByCode_exact_witness:
  "getEdgeByCode (js ''LHR'') =
     Some \<lparr>code = js ''LHR'', city = js ''London'', country = js ''GB'',
           lat = round64 51.47, lng = round64 (-0.45)\<rparr> \<and>
   getEdgeByCode (js ''lhr'') = None \<and>
   getEdgeByCode (js ''XXX'') = None"
proof -
  have m: "\<lparr>code = js ''LHR'', city = js ''London'', country = js ''GB'',
           lat = round64 51.47, lng = round64 (-0.45)\<rparr> \<in> set EDGE_LOCATIONS"
    by (simp add: EDGE_LOCATIONS_def)
  have n1: "\<forall>e\<in>set EDGE_LOCATIONS. code e \<noteq> js ''lhr''"
    by (simp add: EDGE_LOCATIONS_def js_def)
  have n2: "\<forall>e\<in>set EDGE_LOCATIONS. code e \<noteq> js ''XXX''"
    by (simp add: EDGE_LOCATIONS_def js_def)
  from getEdgeByCode_exact[of "js ''LHR''"] m
  have "getEdgeByCode (js ''LHR'') =
     Some \<lparr>code = js ''LHR'', city = js ''London'', country = js ''GB'',
           lat = round64 51.47, lng = round64 (-0.45)\<rparr>" by force
  moreover from getEdgeByCode_exact[of "js ''lhr''"] n1 have "getEdgeByCode (js ''lhr'') = None" by blast
  moreover from getEdgeByCode_exact[of "js ''XXX''"] n2 have "getEdgeByCode (js ''XXX'') = None" by blast
  ultimately show ?thesis by blast
qed

subsection \<open>Well-formedness of the table\<close>

text \<open>
  C9. The codes of the table are pairwise distinct, and every entry has a latitude
  between -90 and 90 and a longitude between -180 and 180.
\<close>

theorem EDGE_LOCATIONS_well_formed:
  "distinct (map code EDGE_LOCATIONS) \<and>
   list_all (\<lambda>e. num_le (Fin (- 90)) (lat e) \<and> num_le (lat e) (Fin 90) \<and>
                 num_le (Fin (- 180)) (lng e) \<and> num_le (lng e) (Fin 180)) EDGE_LOCATIONS"
proof
  show "distinct (map code EDGE_LOCATIONS)"
    by (rule edge_codes_distinct)
  show "list_all (\<lambda>e. num_le (Fin (- 90)) (lat e) \<and> num_le (lat e) (Fin 90) \<and>
                 num_le (Fin (- 180)) (lng e) \<and> num_le (lng e) (Fin 180)) EDGE_LOCATIONS"
    by (simp add: EDGE_LOCATIONS_def)
qed

section \<open>Properties of the streamed reply\<close>

subsection \<open>Splitting into lines\<close>

lemma split_lines_nonempty [simp]: "split_lines s \<noteq> []"
  by (induction s) (auto split: list.splits)

lemma split_lines_Cons:
  "split_lines (c # cs) =
     (if c = 0x0A then [] # split_lines cs
      else (c # hd (split_lines cs)) # tl (split_lines cs))"
  by (cases "split_lines cs") (use split_lines_nonempty[of cs] in auto)

lemma split_lines_append:
  "split_lines (x @ y) = butlast (split_lines x) @ split_lines (last (split_lines x) @ y)"
proof (induction x)
  case Nil
  then show ?case by simp
next
  case (Cons c cs)
  let ?S = "split_lines cs"
  let ?L = "split_lines (cs @ y)"
  have S: "?S \<noteq> []" by simp
  show ?case
  proof (cases "c = 0x0A")
    case True
    then show ?thesis using Cons.IH by simp
  next
    case False
    have lhs: "split_lines ((c # cs) @ y) = (c # hd ?L) # tl ?L"
      using False by (simp add: split_lines_Cons del: split_lines.simps)
    show ?thesis
    proof (cases "tl ?S = []")
      case True
      then obtain l where l: "?S = [l]" using S by (cases ?S) auto
      have L: "?L = split_lines (l @ y)" using Cons.IH l by simp
      have "split_lines (c # cs) = [c # l]"
        using False l by (simp add: split_lines_Cons del: split_lines.simps)
      then have "butlast (split_lines (c # cs)) @ split_lines (last (split_lines (c # cs)) @ y)
               = split_lines (c # (l @ y))" by simp
      also have "\<dots> = (c # hd (split_lines (l @ y))) # tl (split_lines (l @ y))"
        using False by (simp add: split_lines_Cons del: split_lines.simps)
      finally show ?thesis using lhs L by simp
    next
      case False
      note tl = this
      then obtain l ls where l: "?S = l # ls" "ls \<noteq> []" using S by (cases ?S) auto
      have L: "?L = (l # butlast ls) @ split_lines (last ls @ y)" using Cons.IH l by simp
      have "split_lines (c # cs) = (c # l) # ls"
        using \<open>c \<noteq> 0x0A\<close> l by (simp add: split_lines_Cons del: split_lines.simps)
      then have "butlast (split_lines (c # cs)) @ split_lines (last (split_lines (c # cs)) @ y)
               = ((c # l) # butlast ls) @ split_lines (last ls @ y)" using l(2) by simp
      then show ?thesis using lhs L by simp
    qed
  qed
qed

lemma butlast_split_lines_append:
  "butlast (split_lines (x @ y)) =
     butlast (split_lines x) @ butlast (split_lines (last (split_lines x) @ y))"
  by (subst split_lines_append) (simp add: butlast_append)

lemma last_split_lines_append:
  "last (split_lines (x @ y)) = last (split_lines (last (split_lines x) @ y))"
  by (subst split_lines_append) simp

lemma array_pop_split_lines:
  "array_pop (split_lines s) = (Some (last (split_lines s)), butlast (split_lines s))"
  by (simp add: array_pop_def)

lemma or_empty_Some [simp]: "or_empty (Some s) = s"
  by (simp add: or_empty_def)

subsection \<open>Decoding in pieces\<close>

lemma utf8_run_append:
  "utf8_run d (a @ b) =
     (let (d1, out1) = utf8_run d a; (d2, out2) = utf8_run d1 b in (d2, out1 @ out2))"
  by (induction a arbitrary: d) (auto simp: Let_def split: prod.splits)

lemma serialize_append:
  "serialize seen (a @ b) =
     (let (s1, out1) = serialize seen a; (s2, out2) = serialize s1 b in (s2, out1 @ out2))"
  by (cases a; cases b) auto

lemma decode_stream_append:
  "decode_stream td (a @ b) =
     (let (td1, text1) = decode_stream td a; (td2, text2) = decode_stream td1 b
      in (td2, text1 @ text2))"
  by (simp add: decode_stream_def utf8_run_append serialize_append Let_def split: prod.splits)

lemma decode_stream_Nil [simp]: "decode_stream td [] = (td, [])"
  by (simp add: decode_stream_def)

subsection \<open>The loop\<close>

lemma on_chunk_eq:
  "on_chunk st value =
     (let (dec, chunk) = decode_stream (decoder st) value;
          lines = split_lines (buffer st @ chunk);
          full = foldl process_line (fullResponse st) (butlast lines)
      in \<lparr>decoder = dec, buffer = last lines, fullResponse = full, content = full\<rparr>)"
  by (simp add: on_chunk_def Let_def array_pop_split_lines split: prod.splits)

lemma on_chunk_append: "on_chunk (on_chunk st a) b = on_chunk st (a @ b)"
proof -
  obtain d1 t1 where a: "decode_stream (decoder st) a = (d1, t1)" by (cases "decode_stream (decoder st) a")
  obtain d2 t2 where b: "decode_stream d1 b = (d2, t2)" by (cases "decode_stream d1 b")
  have ab: "decode_stream (decoder st) (a @ b) = (d2, t1 @ t2)"
    by (simp add: decode_stream_append a b)
  let ?S1 = "split_lines (buffer st @ t1)"
  let ?S2 = "split_lines (last ?S1 @ t2)"
  let ?f1 = "foldl process_line (fullResponse st) (butlast ?S1)"
  let ?f2 = "foldl process_line ?f1 (butlast ?S2)"
  have 1: "on_chunk st a = \<lparr>decoder = d1, buffer = last ?S1, fullResponse = ?f1, content = ?f1\<rparr>"
    by (simp add: on_chunk_eq a Let_def)
  have 2: "on_chunk (on_chunk st a) b =
             \<lparr>decoder = d2, buffer = last ?S2, fullResponse = ?f2, content = ?f2\<rparr>"
    unfolding 1 by (simp add: on_chunk_eq b Let_def)
  have S: "split_lines (buffer st @ t1 @ t2) = butlast ?S1 @ ?S2"
    using split_lines_append[of "buffer st @ t1" t2] by simp
  have 3: "on_chunk st (a @ b) =
             \<lparr>decoder = d2, buffer = last ?S2, fullResponse = ?f2, content = ?f2\<rparr>"
    by (simp add: on_chunk_eq ab S butlast_append Let_def)
  show ?thesis unfolding 2 3 ..
qed

lemma read_loop_concat: "read_loop st (c # cs) = on_chunk st (concat (c # cs))"
proof (induction cs arbitrary: st c)
  case Nil
  then show ?case by simp
next
  case (Cons c' cs)
  have "read_loop st (c # c' # cs) = read_loop (on_chunk st c) (c' # cs)" by simp
  also have "\<dots> = on_chunk (on_chunk st c) (concat (c' # cs))" by (rule Cons.IH)
  also have "\<dots> = on_chunk st (c @ concat (c' # cs))" by (rule on_chunk_append)
  finally show ?case by simp
qed

lemma on_chunk_initial_Nil: "on_chunk initial_state [] = initial_state"
  by (simp add: on_chunk_eq initial_state_def Let_def)

lemma read_loop_initial: "read_loop initial_state chunks = on_chunk initial_state (concat chunks)"
  by (cases chunks) (simp_all add: on_chunk_initial_Nil read_loop_concat del: read_loop.simps(2))

text \<open>
  C3. However the bytes of the stream are cut into chunks (inside a multi-byte character,
  inside a line or inside a JSON payload), the final \<open>fullResponse\<close> is the one obtained
  when all the bytes arrive as a single chunk.
\<close>

theorem chunking_invariance:
  "fullResponse (read_loop initial_state chunks) =
   fullResponse (read_loop initial_state [concat chunks])"
proof -
  have "read_loop initial_state chunks = on_chunk initial_state (concat chunks)"
    by (rule read_loop_initial)
  moreover have "read_loop initial_state [concat chunks] = on_chunk initial_state (concat chunks)"
    by simp
  ultimately show ?thesis by simp
qed

lemma try_parse_extends: "\<exists>s. try_parse acc data = acc @ s"
  unfolding try_parse_def by (simp split: option.split property.split)

lemma process_line_extends: "\<exists>s. process_line acc line = acc @ s"
  unfolding process_line_def Let_def using try_parse_extends by simp

lemma foldl_process_line_extends: "\<exists>s. foldl process_line acc lines = acc @ s"
proof (induction lines arbitrary: acc)
  case Nil
  then show ?case by simp
next
  case (Cons l ls)
  obtain s1 where s1: "process_line acc l = acc @ s1" using process_line_extends by blast
  obtain s2 where "foldl process_line (acc @ s1) ls = (acc @ s1) @ s2" using Cons.IH by blast
  then show ?case using s1 by simp
qed

text \<open>
  C6. A pass of the loop body never shortens \<open>fullResponse\<close>, whatever the state before
  it and whatever the chunk.
\<close>

theorem fullResponse_grows:
  "length (fullResponse st) \<le> length (fullResponse (on_chunk st value))"
proof -
  obtain dec chunk where d: "decode_stream (decoder st) value = (dec, chunk)"
    by (cases "decode_stream (decoder st) value")
  have "fullResponse (on_chunk st value) =
          foldl process_line (fullResponse st) (butlast (split_lines (buffer st @ chunk)))"
    by (simp add: on_chunk_eq d Let_def)
  then obtain s where "fullResponse (on_chunk st value) = fullResponse st @ s"
    using foldl_process_line_extends by metis
  then show ?thesis by simp
qed

subsection \<open>Evaluation on concrete input\<close>

lemmas json_eval = JSON_parse_def js_def is_json_space_def is_digit_def unescape_def escape_char_def
  hex4_def hex_value_def lex_number_def digits_value_def Let_def

lemmas line_eval = process_line_def try_parse_def trim_def is_trim_space_def startsWith_def

lemmas chunk_eval = on_chunk_def decode_stream_def utf8_handler_def utf8_lead_def utf8_initial_def
  new_TextDecoder_def initial_state_def bytes_def utf16_def array_pop_def or_empty_def

lemma parse_null: "JSON_parse (js ''null'') = Some JNull"
  by (simp add: json_eval)

lemma line_Hi: \<open>process_line acc (js ''data: {"response":"Hi"}'') = acc @ js ''Hi''\<close>
  by (simp add: line_eval json_eval)

lemma line_DONE_padded: "trim (js ''  data: [DONE] '') = js ''data: [DONE]''"
  by (simp add: trim_def is_trim_space_def js_def)

lemma line_raw: \<open>trim (js ''data: {"respo'') = js ''data: {"respo'' \<and>
    JSON_parse (js ''{"respo'') = None\<close>
  by (simp add: trim_def is_trim_space_def json_eval)

text \<open>
  Two chunks that cut the three bytes of U+20AC after the second byte, and the same bytes
  as one chunk.
\<close>

theorem chunking_invariance_witness:
  \<open>fullResponse (read_loop initial_state
      [bytes ''data: {"response":"'' @ [0xE2, 0x82], [0xAC] @ bytes ''"}'' @ [0x0A]]) = [0x20AC] \<and>
   fullResponse (read_loop initial_state
      [concat [bytes ''data: {"response":"'' @ [0xE2, 0x82], [0xAC] @ bytes ''"}'' @ [0x0A]]]) = [0x20AC]\<close>
proof -
  have \<open>fullResponse (read_loop initial_state
      [bytes ''data: {"response":"'' @ [0xE2, 0x82], [0xAC] @ bytes ''"}'' @ [0x0A]]) = [0x20AC]\<close>
    by (simp add: chunk_eval line_eval json_eval)
  then show ?thesis
    using chunking_invariance[of \<open>[bytes ''data: {"response":"'' @ [0xE2, 0x82],
      [0xAC] @ bytes ''"}'' @ [0x0A]]\<close>] by simp
qed

subsection \<open>The sentinel line\<close>

lemma decode_ascii_DONE:
  assumes "bytes_needed (utf8 td) = 0"
  shows "decode_stream td (bytes ''data: [DONE]'' @ [0x0A]) =
           (td\<lparr>BOM_seen := True\<rparr>, js ''data: [DONE]'' @ [0x0A])"
  using assms
  by (simp add: decode_stream_def utf8_handler_def utf8_lead_def bytes_def utf16_def js_def)

lemma split_DONE: "split_lines (js ''data: [DONE]'' @ [0x0A]) = [js ''data: [DONE]'', []]"
  by (simp add: js_def)

lemma process_DONE: "process_line acc (js ''data: [DONE]'') = acc"
  by (simp add: process_line_def trim_def is_trim_space_def startsWith_def js_def)

text \<open>
  C4. A line whose trimmed form is \<open>data: [DONE]\<close> leaves \<open>fullResponse\<close> as it is, and the
  lines after it are processed as usual; every other payload goes through the \<open>try\<close>
  statement; and after a chunk that is the sentinel line the loop goes on reading with
  an unchanged \<open>fullResponse\<close>: only the end of the chunks ends it.
\<close>

theorem DONE_line_is_skipped:
  "(trim line = js ''data: [DONE]'' \<longrightarrow>
      process_line acc line = acc \<and>
      foldl process_line acc (line # rest) = foldl process_line acc rest) \<and>
   (startsWith (trim line) (js ''data: '') \<and> drop 6 (trim line) \<noteq> js ''[DONE]'' \<longrightarrow>
      process_line acc line = try_parse acc (drop 6 (trim line))) \<and>
   (buffer st = [] \<and> bytes_needed (utf8 (decoder st)) = 0 \<longrightarrow>
      read_loop st ((bytes ''data: [DONE]'' @ [0x0A]) # more_chunks) =
      read_loop (st\<lparr>decoder := (decoder st)\<lparr>BOM_seen := True\<rparr>, content := fullResponse st\<rparr>)
        more_chunks)"
proof (intro conjI impI)
  assume t: "trim line = js ''data: [DONE]''"
  have "startsWith (js ''data: [DONE]'') (js ''data: '')" "drop 6 (js ''data: [DONE]'') = js ''[DONE]''"
    by (simp_all add: startsWith_def js_def)
  then show 1: "process_line acc line = acc"
    by (simp add: process_line_def t)
  then show "foldl process_line acc (line # rest) = foldl process_line acc rest"
    by simp
next
  assume "startsWith (trim line) (js ''data: '') \<and> drop 6 (trim line) \<noteq> js ''[DONE]''"
  then show "process_line acc line = try_parse acc (drop 6 (trim line))"
    by (simp add: process_line_def)
next
  assume a: "buffer st = [] \<and> bytes_needed (utf8 (decoder st)) = 0"
  have "on_chunk st (bytes ''data: [DONE]'' @ [0x0A]) =
          st\<lparr>decoder := (decoder st)\<lparr>BOM_seen := True\<rparr>, content := fullResponse st\<rparr>"
    using a
    by (cases st)
       (simp add: on_chunk_eq decode_ascii_DONE split_DONE process_DONE Let_def
          del: split_lines.simps)
  then show "read_loop st ((bytes ''data: [DONE]'' @ [0x0A]) # more_chunks) =
      read_loop (st\<lparr>decoder := (decoder st)\<lparr>BOM_seen := True\<rparr>, content := fullResponse st\<rparr>)
        more_chunks"
    by simp
qed

theorem DONE_line_is_skipped_witness:
  \<open>foldl process_line (js ''abc'') [js ''  data: [DONE] '', js ''data: {"response":"Hi"}''] = js ''abcHi'' \<and>
   process_line (js ''abc'') (js ''data: {"respo'') = js ''abc{"respo'' \<and>
   fullResponse (read_loop initial_state
      [bytes ''data: [DONE]'' @ [0x0A], bytes ''data: {"response":"Hi"}'' @ [0x0A]]) = js ''Hi''\<close>
proof (intro conjI)
  have \<open>foldl process_line (js ''abc'') [js ''  data: [DONE] '', js ''data: {"response":"Hi"}'']
        = foldl process_line (js ''abc'') [js ''data: {"response":"Hi"}'']\<close>
    by (rule DONE_line_is_skipped[THEN conjunct1, rule_format, OF line_DONE_padded, THEN conjunct2])
  also have \<open>\<dots> = js ''abcHi''\<close>
    by (simp add: line_Hi) (simp add: js_def)
  finally show \<open>foldl process_line (js ''abc'') [js ''  data: [DONE] '', js ''data: {"response":"Hi"}'']
      = js ''abcHi''\<close> .
next
  have p: \<open>startsWith (trim (js ''data: {"respo'')) (js ''data: '') \<and>
           drop 6 (trim (js ''data: {"respo'')) \<noteq> js ''[DONE]''\<close>
    by (simp add: trim_def is_trim_space_def startsWith_def js_def)
  have d: \<open>drop 6 (trim (js ''data: {"respo'')) = js ''{"respo''\<close>
    by (simp add: trim_def is_trim_space_def js_def)
  have \<open>process_line (js ''abc'') (js ''data: {"respo'') =
          try_parse (js ''abc'') (drop 6 (trim (js ''data: {"respo'')))\<close>
    by (rule DONE_line_is_skipped[THEN conjunct2, THEN conjunct1, rule_format, OF p])
  then have \<open>process_line (js ''abc'') (js ''data: {"respo'') = try_parse (js ''abc'') (js ''{"respo'')\<close>
    unfolding d .
  also have \<open>\<dots> = js ''abc{"respo''\<close>
    using line_raw by (simp add: try_parse_def) (simp add: js_def)
  finally show \<open>process_line (js ''abc'') (js ''data: {"respo'') = js ''abc{"respo''\<close> .
next
  have i: "buffer initial_state = [] \<and> bytes_needed (utf8 (decoder initial_state)) = 0"
    by (simp add: initial_state_def new_TextDecoder_def utf8_initial_def)
  have e: \<open>read_loop initial_state
      [bytes ''data: [DONE]'' @ [0x0A], bytes ''data: {"response":"Hi"}'' @ [0x0A]] =
    read_loop (initial_state\<lparr>decoder := (decoder initial_state)\<lparr>BOM_seen := True\<rparr>,
                 content := fullResponse initial_state\<rparr>)
      [bytes ''data: {"response":"Hi"}'' @ [0x0A]]\<close>
    by (rule DONE_line_is_skipped[THEN conjunct2, THEN conjunct2, rule_format, OF i])
  show \<open>fullResponse (read_loop initial_state
      [bytes ''data: [DONE]'' @ [0x0A], bytes ''data: {"response":"Hi"}'' @ [0x0A]]) = js ''Hi''\<close>
    unfolding e by (simp add: chunk_eval line_eval json_eval)
qed

text \<open>
  C2, as the code has it. When \<open>reader.read()\<close> reports \<open>done\<close> the loop ends at once:
  \<open>fullResponse\<close> is the result of the per-line rule on the lines of the decoded stream that
  end with a newline, in order, and the text after the last newline stays in \<open>buffer\<close>,
  unprocessed.
\<close>

theorem only_terminated_lines_processed:
  "fullResponse (read_loop initial_state chunks) =
     foldl process_line [] (butlast (split_lines (snd (decode_stream new_TextDecoder (concat chunks))))) \<and>
   buffer (read_loop initial_state chunks) =
     last (split_lines (snd (decode_stream new_TextDecoder (concat chunks))))"
proof -
  obtain dec decoded where d: "decode_stream new_TextDecoder (concat chunks) = (dec, decoded)"
    by (cases "decode_stream new_TextDecoder (concat chunks)")
  have i: "decoder initial_state = new_TextDecoder" "buffer initial_state = []"
      "fullResponse initial_state = []"
    by (simp_all add: initial_state_def)
  show ?thesis
    unfolding read_loop_initial by (simp add: on_chunk_eq i d Let_def)
qed

text \<open>
  There is no final flush. A stream that ends with a complete \<open>data: \<close> line without its
  newline leaves that line in \<open>buffer\<close>; the per-line rule would add \<open>Hi\<close>, and
  \<open>fullResponse\<close> is empty at the end.
\<close>

theorem final_flush_counterexample:
  \<open>buffer (read_loop initial_state [bytes ''data: {"response":"Hi"}'']) = js ''data: {"response":"Hi"}'' \<and>
   process_line [] (js ''data: {"response":"Hi"}'') = js ''Hi'' \<and>
   fullResponse (read_loop initial_state [bytes ''data: {"response":"Hi"}'']) = []\<close>
  by (simp add: chunk_eval line_eval json_eval)

subsection \<open>Payloads that are not a record with a response\<close>

text \<open>
  A payload that the parser rejects is appended as it is, and a payload that parses to
  a value other than \<open>null\<close> without a \<open>response\<close> property appends nothing.
\<close>

lemma parse_failure_appends_raw:
  "startsWith (trim line) (js ''data: '') \<Longrightarrow> drop 6 (trim line) \<noteq> js ''[DONE]'' \<Longrightarrow>
   JSON_parse (drop 6 (trim line)) = None \<Longrightarrow>
   process_line acc line = acc @ drop 6 (trim line)"
  by (simp add: process_line_def try_parse_def)

lemma no_response_appends_nothing:
  "startsWith (trim line) (js ''data: '') \<Longrightarrow> drop 6 (trim line) \<noteq> js ''[DONE]'' \<Longrightarrow>
   JSON_parse (drop 6 (trim line)) = Some v \<Longrightarrow> get_response v = Undefined \<Longrightarrow>
   process_line acc line = acc"
  by (simp add: process_line_def try_parse_def)

text \<open>
  C5. The payload \<open>null\<close> parses and has no \<open>response\<close> property, yet it is not skipped:
  reading the property of \<open>null\<close> throws inside \<open>try\<close>, the \<open>catch\<close> block written for text
  that is not JSON runs, and the text \<open>null\<close> is appended to \<open>fullResponse\<close>.
\<close>

theorem null_payload_appends_raw:
  "JSON_parse (js ''null'') = Some JNull \<and>
   process_line acc (js ''data: null'') = acc @ js ''null'' \<and>
   fullResponse (read_loop initial_state [bytes ''data: null'' @ [0x0A]]) = js ''null''"
proof (intro conjI)
  show "JSON_parse (js ''null'') = Some JNull" by (rule parse_null)
  show "process_line acc (js ''data: null'') = acc @ js ''null''"
    by (simp add: line_eval json_eval)
  show "fullResponse (read_loop initial_state [bytes ''data: null'' @ [0x0A]]) = js ''null''"
    by (simp add: chunk_eval line_eval json_eval)
qed

end
